theory Spec2Isabelle
  imports Complex_Main
begin

section \<open>Numeric values of the arrays\<close>

text \<open>
  The program works on numpy arrays of 64-bit floats. A float is modelled as an exact real
  number or one of the three special values of IEEE arithmetic; rounding is not modelled,
  so a finite result is the exact result of the operation. The special values follow IEEE:
  an operation on \<open>NaN\<close> gives \<open>NaN\<close>, \<open>inf - inf\<close>, \<open>0 / 0\<close> and \<open>inf / inf\<close> give
  \<open>NaN\<close>, and every comparison with \<open>NaN\<close> is false except \<open>!=\<close>. There is one zero
  (the positive one).
\<close>

datatype npfloat = Fin real | PInf | NInf | NaN

datatype error = ValueError | IndexError | NetworkXError

type_synonym matrix = "npfloat list list"

fun np_add :: "npfloat \<Rightarrow> npfloat \<Rightarrow> npfloat" where
  "np_add (Fin a) (Fin b) = Fin (a + b)"
| "np_add (Fin a) PInf = PInf"
| "np_add (Fin a) NInf = NInf"
| "np_add PInf (Fin b) = PInf"
| "np_add PInf PInf = PInf"
| "np_add PInf NInf = NaN"
| "np_add NInf (Fin b) = NInf"
| "np_add NInf NInf = NInf"
| "np_add NInf PInf = NaN"
| "np_add NaN y = NaN"
| "np_add x NaN = NaN"

fun np_neg :: "npfloat \<Rightarrow> npfloat" where
  "np_neg (Fin a) = Fin (- a)"
| "np_neg PInf = NInf"
| "np_neg NInf = PInf"
| "np_neg NaN = NaN"

definition np_sub :: "npfloat \<Rightarrow> npfloat \<Rightarrow> npfloat" where
  "np_sub x y = np_add x (np_neg y)"

fun np_mul :: "npfloat \<Rightarrow> npfloat \<Rightarrow> npfloat" where
  "np_mul (Fin a) (Fin b) = Fin (a * b)"
| "np_mul (Fin a) PInf = (if a = 0 then NaN else if 0 < a then PInf else NInf)"
| "np_mul (Fin a) NInf = (if a = 0 then NaN else if 0 < a then NInf else PInf)"
| "np_mul PInf (Fin b) = (if b = 0 then NaN else if 0 < b then PInf else NInf)"
| "np_mul NInf (Fin b) = (if b = 0 then NaN else if 0 < b then NInf else PInf)"
| "np_mul PInf PInf = PInf"
| "np_mul PInf NInf = NInf"
| "np_mul NInf PInf = NInf"
| "np_mul NInf NInf = PInf"
| "np_mul NaN y = NaN"
| "np_mul x NaN = NaN"

fun np_div :: "npfloat \<Rightarrow> npfloat \<Rightarrow> npfloat" where
  "np_div (Fin a) (Fin b) =
     (if b = 0 then (if a = 0 then NaN else if 0 < a then PInf else NInf) else Fin (a / b))"
| "np_div (Fin a) PInf = Fin 0"
| "np_div (Fin a) NInf = Fin 0"
| "np_div PInf (Fin b) = (if 0 \<le> b then PInf else NInf)"
| "np_div NInf (Fin b) = (if 0 \<le> b then NInf else PInf)"
| "np_div PInf PInf = NaN"
| "np_div PInf NInf = NaN"
| "np_div NInf PInf = NaN"
| "np_div NInf NInf = NaN"
| "np_div NaN y = NaN"
| "np_div x NaN = NaN"

fun np_sqrt :: "npfloat \<Rightarrow> npfloat" where
  "np_sqrt (Fin a) = (if a < 0 then NaN else Fin (sqrt a))"
| "np_sqrt PInf = PInf"
| "np_sqrt NInf = NaN"
| "np_sqrt NaN = NaN"

fun np_lt :: "npfloat \<Rightarrow> npfloat \<Rightarrow> bool" where
  "np_lt (Fin a) (Fin b) = (a < b)"
| "np_lt (Fin a) PInf = True"
| "np_lt NInf (Fin b) = True"
| "np_lt NInf PInf = True"
| "np_lt x y = False"

definition np_gt :: "npfloat \<Rightarrow> npfloat \<Rightarrow> bool" where
  "np_gt x y = np_lt y x"

fun np_le :: "npfloat \<Rightarrow> npfloat \<Rightarrow> bool" where
  "np_le (Fin a) (Fin b) = (a \<le> b)"
| "np_le (Fin a) PInf = True"
| "np_le NInf (Fin b) = True"
| "np_le NInf NInf = True"
| "np_le NInf PInf = True"
| "np_le PInf PInf = True"
| "np_le x y = False"

fun isfinite :: "npfloat \<Rightarrow> bool" where
  "isfinite (Fin a) = True"
| "isfinite x = False"

definition np_ne :: "npfloat \<Rightarrow> npfloat \<Rightarrow> bool" where
  "np_ne x y = (x = NaN \<or> y = NaN \<or> x \<noteq> y)"

definition np_eq :: "npfloat \<Rightarrow> npfloat \<Rightarrow> bool" where
  "np_eq x y = (\<not> np_ne x y)"

text \<open>\<open>np.minimum\<close> and \<open>np.maximum\<close> propagate \<open>NaN\<close>; \<open>np.fmax\<close> ignores it.\<close>

definition np_minimum :: "npfloat \<Rightarrow> npfloat \<Rightarrow> npfloat" where
  "np_minimum x y = (if x = NaN \<or> y = NaN then NaN else if np_lt y x then y else x)"

definition np_maximum :: "npfloat \<Rightarrow> npfloat \<Rightarrow> npfloat" where
  "np_maximum x y = (if x = NaN \<or> y = NaN then NaN else if np_lt x y then y else x)"

definition np_fmax :: "npfloat \<Rightarrow> npfloat \<Rightarrow> npfloat" where
  "np_fmax x y = (if x = NaN then y else if y = NaN then x else if np_lt x y then y else x)"

text \<open>
  Reductions over all the entries of an array. \<open>np.max\<close> and \<open>np.nanmax\<close> raise
  \<open>ValueError\<close> on an empty array; \<open>np.mean\<close> of an empty array is \<open>0 / 0\<close>.
\<close>

definition np_sum :: "npfloat list \<Rightarrow> npfloat" where
  "np_sum xs = foldl np_add (Fin 0) xs"

definition np_mean :: "npfloat list \<Rightarrow> npfloat" where
  "np_mean xs = np_div (np_sum xs) (Fin (real (length xs)))"

definition np_max :: "npfloat list \<Rightarrow> error + npfloat" where
  "np_max xs = (case xs of [] \<Rightarrow> Inl ValueError | x # r \<Rightarrow> Inr (foldl np_maximum x r))"

definition np_nanmax :: "npfloat list \<Rightarrow> error + npfloat" where
  "np_nanmax xs = (case xs of [] \<Rightarrow> Inl ValueError | x # r \<Rightarrow> Inr (foldl np_fmax x r))"

text \<open>The number of columns of a two-dimensional array, given as the list of its rows.\<close>

definition ncols :: "matrix \<Rightarrow> nat" where
  "ncols A = (case A of [] \<Rightarrow> 0 | r # _ \<Rightarrow> length r)"

section \<open>Neighbour graphs and shortest paths\<close>

text \<open>
  \<open>kneighbors_graph(X, k, mode='connectivity', include_self=True)\<close> returns a sparse matrix
  whose stored entries are all 1: the matrix is its shape and the coordinates of the
  stored entries. The routine belongs to scikit-learn; the functions below take it as the
  parameter \<open>kneighbors\<close>.
\<close>

record sparse_matrix =
  shape :: "nat \<times> nat"
  nonzero :: "(nat \<times> nat) list"

text \<open>
  \<open>nx.from_scipy_sparse_matrix\<close> builds an undirected graph on the nodes \<open>0..n-1\<close> with
  an edge of weight 1 for each stored entry, and refuses a matrix that is not square.
\<close>

record graph =
  number_of_nodes :: nat
  edges :: "(nat \<times> nat) list"

definition from_scipy_sparse_matrix :: "sparse_matrix \<Rightarrow> error + graph" where
  "from_scipy_sparse_matrix A =
     (if fst (shape A) \<noteq> snd (shape A) then Inl NetworkXError
      else Inr \<lparr>number_of_nodes = fst (shape A), edges = nonzero A\<rparr>)"

definition has_edge :: "graph \<Rightarrow> nat \<Rightarrow> nat \<Rightarrow> bool" where
  "has_edge G i j = ((i, j) \<in> set (edges G) \<or> (j, i) \<in> set (edges G))"

text \<open>\<open>nx.to_numpy_array(G, nonedge=np.inf)\<close>: the weight of the edge, \<open>inf\<close> where there is none.\<close>

definition to_numpy_array :: "graph \<Rightarrow> matrix" where
  "to_numpy_array G =
     map (\<lambda>r. map (\<lambda>c. if has_edge G r c then Fin 1 else PInf) [0..<number_of_nodes G])
       [0..<number_of_nodes G]"

definition fill_diagonal :: "matrix \<Rightarrow> npfloat \<Rightarrow> matrix" where
  "fill_diagonal A v =
     map (\<lambda>r. map (\<lambda>c. if r = c then v else A ! r ! c) [0..<length A]) [0..<length A]"

text \<open>
  One round of the loop of \<open>nx.floyd_warshall_numpy\<close>:
  \<open>A = np.minimum(A, A[i, :][np.newaxis, :] + A[:, i][:, np.newaxis])\<close>.
\<close>

definition fw_round :: "matrix \<Rightarrow> nat \<Rightarrow> matrix" where
  "fw_round A i =
     map (\<lambda>r. map (\<lambda>c. np_minimum (A ! r ! c) (np_add (A ! i ! c) (A ! r ! i)))
       [0..<length A]) [0..<length A]"

definition floyd_warshall_numpy :: "graph \<Rightarrow> matrix" where
  "floyd_warshall_numpy G =
     foldl fw_round (fill_diagonal (to_numpy_array G) (Fin 0)) [0..<number_of_nodes G]"

subsection \<open>A model of the neighbour search\<close>

text \<open>
  A model of scikit-learn's \<open>kneighbors_graph\<close> with \<open>include_self=True\<close>, from its
  documentation: row \<open>i\<close> stores the \<open>n_neighbors\<close> rows nearest to row \<open>i\<close> in Euclidean
  distance, row \<open>i\<close> itself among the candidates. It raises \<open>ValueError\<close> on an input
  without rows or without columns, on an entry that is not finite, and when
  \<open>n_neighbors\<close> is not positive or exceeds the number of rows. The distances are exact
  (no rounding, no overflow). scikit-learn does not fix the order of equidistant
  candidates; the model takes the lower index first and is evaluated only on inputs
  without such ties.
\<close>

definition sqdist :: "npfloat list \<Rightarrow> npfloat list \<Rightarrow> npfloat" where
  "sqdist x y = np_sum (map (\<lambda>(a, b). np_mul (np_sub a b) (np_sub a b)) (zip x y))"

fun insert_by :: "('a \<Rightarrow> 'a \<Rightarrow> bool) \<Rightarrow> 'a \<Rightarrow> 'a list \<Rightarrow> 'a list" where
  "insert_by le x [] = [x]"
| "insert_by le x (y # ys) = (if le x y then x # y # ys else y # insert_by le x ys)"

definition nearest :: "matrix \<Rightarrow> nat \<Rightarrow> nat \<Rightarrow> nat list" where
  "nearest X k i =
     take k (foldr (insert_by (\<lambda>a b. np_le (sqdist (X ! i) (X ! a)) (sqdist (X ! i) (X ! b))))
       [0..<length X] [])"

definition kneighbors_graph :: "matrix \<Rightarrow> int \<Rightarrow> error + sparse_matrix" where
  "kneighbors_graph X n_neighbors =
     (if X = [] \<or> ncols X = 0 \<or> \<not> list_all isfinite (concat X) \<or> n_neighbors \<le> 0
         \<or> int (length X) < n_neighbors
      then Inl ValueError
      else Inr \<lparr>shape = (length X, length X),
                nonzero = concat (map (\<lambda>i. map (\<lambda>j. (i, j)) (nearest X (nat n_neighbors) i))
                                   [0..<length X])\<rparr>)"

section \<open>setup_for_OT_reconstruction\<close>

text \<open>Lines 30-32 and 34-36: the shortest-path matrix of the neighbour graph of the rows.\<close>

definition shortest_paths ::
  "(matrix \<Rightarrow> int \<Rightarrow> error + sparse_matrix) \<Rightarrow> matrix \<Rightarrow> int \<Rightarrow> error + matrix" where
  "shortest_paths kneighbors X num_neighbors =
     (case kneighbors X num_neighbors of
        Inl e \<Rightarrow> Inl e
      | Inr A \<Rightarrow>
          (case from_scipy_sparse_matrix A of
             Inl e \<Rightarrow> Inl e
           | Inr G \<Rightarrow> Inr (floyd_warshall_numpy G)))"

text \<open>
  Lines 37-38: \<open>sp_max = np.nanmax(sp[sp != np.inf])\<close>, then \<open>sp[sp > sp_max] = sp_max\<close>.
\<close>

definition threshold_shortest_paths :: "matrix \<Rightarrow> error + matrix" where
  "threshold_shortest_paths sp =
     (case np_nanmax (filter (\<lambda>x. np_ne x PInf) (concat sp)) of
        Inl e \<Rightarrow> Inl e
      | Inr sp_max \<Rightarrow> Inr (map (map (\<lambda>x. if np_gt x sp_max then sp_max else x)) sp))"

text \<open>Lines 41-42 and 43-44: \<open>cost = sp / sp.max()\<close>, then \<open>cost -= np.mean(cost)\<close>.\<close>

definition normalized_cost :: "matrix \<Rightarrow> error + matrix" where
  "normalized_cost sp =
     (case np_max (concat sp) of
        Inl e \<Rightarrow> Inl e
      | Inr m \<Rightarrow>
          (let cost = map (map (\<lambda>x. np_div x m)) sp
           in Inr (map (map (\<lambda>x. np_sub x (np_mean (concat cost)))) cost)))"

text \<open>
  The function returns the pair \<open>(cost_expression, cost_locations)\<close>. The progress text
  and the elapsed time it prints are not modelled. The defaults of the two neighbour
  counts are 5.
\<close>

definition setup_for_OT_reconstruction ::
  "(matrix \<Rightarrow> int \<Rightarrow> error + sparse_matrix) \<Rightarrow> matrix \<Rightarrow> matrix \<Rightarrow> int \<Rightarrow> int
     \<Rightarrow> error + (matrix \<times> matrix)" where
  "setup_for_OT_reconstruction kneighbors dge locations num_neighbors_source num_neighbors_target =
     (case shortest_paths kneighbors locations num_neighbors_target of
        Inl e \<Rightarrow> Inl e
      | Inr sp_locations \<Rightarrow>
     (case shortest_paths kneighbors dge num_neighbors_source of
        Inl e \<Rightarrow> Inl e
      | Inr sp_expression0 \<Rightarrow>
     (case threshold_shortest_paths sp_expression0 of
        Inl e \<Rightarrow> Inl e
      | Inr sp_expression \<Rightarrow>
     (case normalized_cost sp_locations of
        Inl e \<Rightarrow> Inl e
      | Inr cost_locations \<Rightarrow>
     (case normalized_cost sp_expression of
        Inl e \<Rightarrow> Inl e
      | Inr cost_expression \<Rightarrow> Inr (cost_expression, cost_locations))))))"

section \<open>Array indexing and correlation\<close>

text \<open>
  Indexing a numpy array by an integer: a negative index counts from the end, an index out
  of range raises \<open>IndexError\<close>. Indexing by a boolean mask keeps the positions where the
  mask is true.
\<close>

definition np_index :: "'a list \<Rightarrow> int \<Rightarrow> error + 'a" where
  "np_index xs i =
     (if 0 \<le> i \<and> i < int (length xs) then Inr (xs ! nat i)
      else if i < 0 \<and> - int (length xs) \<le> i then Inr (xs ! nat (int (length xs) + i))
      else Inl IndexError)"

definition boolean_index :: "'a list \<Rightarrow> bool list \<Rightarrow> 'a list" where
  "boolean_index xs keep = map fst (filter snd (zip xs keep))"

text \<open>A list of results, the first error raised winning, as in a loop that stops at an exception.\<close>

fun sequence_err :: "(error + 'a) list \<Rightarrow> error + 'a list" where
  "sequence_err [] = Inr []"
| "sequence_err (x # xs) =
     (case x of
        Inl e \<Rightarrow> Inl e
      | Inr v \<Rightarrow> (case sequence_err xs of Inl e \<Rightarrow> Inl e | Inr vs \<Rightarrow> Inr (v # vs)))"

text \<open>Python's built-in \<open>min(a, b)\<close> and \<open>max(a, b)\<close> keep \<open>a\<close> unless \<open>b\<close> compares beyond it.\<close>

definition py_min :: "npfloat \<Rightarrow> npfloat \<Rightarrow> npfloat" where
  "py_min a b = (if np_lt b a then b else a)"

definition py_max :: "npfloat \<Rightarrow> npfloat \<Rightarrow> npfloat" where
  "py_max a b = (if np_gt b a then b else a)"

text \<open>
  A model of \<open>scipy.stats.pearsonr\<close> in exact arithmetic (the rounding and the overflow
  of the float routine are left out), following the formula of the scipy releases
  contemporary with the program, which is total. It returns the coefficient and its
  two-sided p-value: the coefficient is the sum of the products of the centred samples over the
  root of the product of their sums of squares, clamped to \<open>[-1, 1]\<close>; it is \<open>NaN\<close> (not an
  exception) when a sample is constant. The p-value is 0 when the coefficient is 1 or -1
  (\<open>prob = 0.0\<close> in the routine), \<open>NaN\<close> when the coefficient is, and otherwise a value
  of the incomplete beta function, taken here as the parameter \<open>pvalue\<close> of the
  coefficient and the number of samples. Two samples of different lengths are refused.
  The functions below take the routine as the parameter \<open>pearson\<close>.
\<close>

definition sum_of_squares :: "npfloat list \<Rightarrow> npfloat" where
  "sum_of_squares xs = np_sum (map (\<lambda>a. np_mul a a) xs)"

definition pearsonr ::
  "(real \<Rightarrow> nat \<Rightarrow> npfloat) \<Rightarrow> npfloat list \<Rightarrow> npfloat list \<Rightarrow> error + (npfloat \<times> npfloat)" where
  "pearsonr pvalue x y =
     (if length x \<noteq> length y then Inl ValueError
      else
        (let xm = map (\<lambda>a. np_sub a (np_mean x)) x;
             ym = map (\<lambda>b. np_sub b (np_mean y)) y;
             r_num = np_sum (map (\<lambda>(a, b). np_mul a b) (zip xm ym));
             r_den = np_sqrt (np_mul (sum_of_squares xm) (sum_of_squares ym));
             r = py_max (py_min (np_div r_num r_den) (Fin 1)) (Fin (- 1))
         in Inr (r, (case r of
                       Fin c \<Rightarrow> if \<bar>c\<bar> = 1 then Fin 0 else pvalue c (length x)
                     | _ \<Rightarrow> NaN))))"

section \<open>find_spatial_archetypes\<close>

text \<open>
  \<open>np.mean(rows, axis=0)\<close>: the mean of each column over the given rows (\<open>NaN\<close> in every
  column when there is no row).
\<close>

definition mean_axis0 :: "nat \<Rightarrow> matrix \<Rightarrow> npfloat list" where
  "mean_axis0 S rows = map (\<lambda>j. np_mean (map (\<lambda>row. row ! j) rows)) [0..<S]"

text \<open>
  Line 58: \<open>arch_comp = lambda x : np.mean(sdge[np.where(clusters == x)[0], :], axis=0)\<close>.
\<close>

definition arch_comp :: "matrix \<Rightarrow> int list \<Rightarrow> int \<Rightarrow> error + npfloat list" where
  "arch_comp sdge clusters x =
     (let members = filter (\<lambda>i. clusters ! i = x) [0..<length clusters]
      in if list_ex (\<lambda>i. length sdge \<le> i) members then Inl IndexError
         else Inr (mean_axis0 (ncols sdge) (map (\<lambda>i. sdge ! i) members)))"

text \<open>
  The clustering \<open>hierarchy.fcluster(hierarchy.ward(sdge), num_clusters, criterion='maxclust')\<close>
  belongs to scipy and is the parameter \<open>ward_fcluster\<close>; the correlation routine is the
  parameter \<open>pearson\<close>. The function returns \<open>(archetypes, clusters, gene_corrs)\<close>; its
  progress text is not modelled.
\<close>

definition find_spatial_archetypes ::
  "(matrix \<Rightarrow> int \<Rightarrow> error + int list)
     \<Rightarrow> (npfloat list \<Rightarrow> npfloat list \<Rightarrow> error + (npfloat \<times> npfloat))
     \<Rightarrow> int \<Rightarrow> matrix \<Rightarrow> error + (matrix \<times> int list \<times> npfloat list)" where
  "find_spatial_archetypes ward_fcluster pearson num_clusters sdge =
     (case ward_fcluster sdge num_clusters of
        Inl e \<Rightarrow> Inl e
      | Inr clusters \<Rightarrow>
     (case sequence_err (map (arch_comp sdge clusters) [1..num_clusters]) of
        Inl e \<Rightarrow> Inl e
      | Inr archetypes \<Rightarrow>
     (case sequence_err
             (map (\<lambda>gene.
                     case np_index clusters (int gene) of
                       Inl e \<Rightarrow> Inl e
                     | Inr c \<Rightarrow>
                         (case np_index archetypes (c - 1) of
                            Inl e \<Rightarrow> Inl e
                          | Inr row \<Rightarrow>
                              (case pearson (sdge ! gene) row of
                                 Inl e \<Rightarrow> Inl e
                               | Inr rp \<Rightarrow> Inr (fst rp))))
                [0..<length sdge]) of
        Inl e \<Rightarrow> Inl e
      | Inr gene_corrs \<Rightarrow> Inr (archetypes, clusters, gene_corrs))))"

subsection \<open>The clustering routine\<close>














section \<open>get_genes_from_spatial_archetype and find_spatially_related_genes\<close>

text \<open>
  Both functions return a sequence of gene names or \<open>None\<close>, and print a message before
  they return \<open>None\<close>: the result is the pair of the lines printed and the value returned.
  \<open>gene_names\<close> is a numpy array of strings, indexed by a boolean mask in line 85 (a mask
  of another length raises \<open>IndexError\<close>). The default of \<open>pval_threshold\<close> is 0.
\<close>

text \<open>
  The literal \<open>0.7\<close> of line 98 is a 64-bit float: the number \<open>3152519739159347 / 2^52\<close>,
  a little below 7/10.
\<close>

definition match_threshold :: real where
  "match_threshold = 3152519739159347 / 4503599627370496"

definition no_genes_message :: string where
  "no_genes_message =
     ''No genes with significant correlation were found at the current p-value threshold.''"

definition no_archetype_message :: string where
  "no_archetype_message =
     ''No significant correlation between the gene and the spatial archetypes was found.''"

definition get_genes_from_spatial_archetype ::
  "(npfloat list \<Rightarrow> npfloat list \<Rightarrow> error + (npfloat \<times> npfloat))
     \<Rightarrow> matrix \<Rightarrow> string list \<Rightarrow> matrix \<Rightarrow> int \<Rightarrow> npfloat
     \<Rightarrow> error + (string list \<times> string list option)" where
  "get_genes_from_spatial_archetype pearson sdge gene_names archetypes archetype pval_threshold =
     (case sequence_err
             (map (\<lambda>g. case np_index archetypes archetype of
                          Inl e \<Rightarrow> Inl e
                        | Inr row \<Rightarrow> pearson (sdge ! g) row)
                [0..<length sdge]) of
        Inl e \<Rightarrow> Inl e
      | Inr rp \<Rightarrow>
          (let all_corrs = map fst rp;
               all_corrs_p = map snd rp;
               positive = map (\<lambda>r. np_gt r (Fin 0)) all_corrs;
               indices = filter (\<lambda>k. np_le (boolean_index all_corrs_p positive ! k) pval_threshold)
                           [0..<length (boolean_index all_corrs_p positive)]
           in if length indices = 0 then Inr ([no_genes_message], None)
              else if length gene_names \<noteq> length positive then Inl IndexError
              else Inr ([], Some (map (\<lambda>k. boolean_index gene_names positive ! k) indices))))"

text \<open>
  \<open>np.argmax\<close>: the first index holding the maximum, or the first index holding \<open>NaN\<close> when
  there is one (a \<open>NaN\<close> ends the scan).
\<close>

fun argmax_scan :: "npfloat \<Rightarrow> nat \<Rightarrow> nat \<Rightarrow> npfloat list \<Rightarrow> nat" where
  "argmax_scan mp idx i [] = idx"
| "argmax_scan mp idx i (x # xs) =
     (if mp = NaN then idx
      else if \<not> np_le x mp then argmax_scan x i (Suc i) xs
      else argmax_scan mp idx (Suc i) xs)"

definition np_argmax :: "npfloat list \<Rightarrow> error + nat" where
  "np_argmax xs = (case xs of [] \<Rightarrow> Inl ValueError | x # r \<Rightarrow> Inr (argmax_scan x 0 1 r))"

definition find_spatially_related_genes ::
  "(npfloat list \<Rightarrow> npfloat list \<Rightarrow> error + (npfloat \<times> npfloat))
     \<Rightarrow> matrix \<Rightarrow> string list \<Rightarrow> matrix \<Rightarrow> int \<Rightarrow> npfloat
     \<Rightarrow> error + (string list \<times> string list option)" where
  "find_spatially_related_genes pearson sdge gene_names archetypes gene pval_threshold =
     (case sequence_err
             (map (\<lambda>archetype.
                     case np_index sdge gene of
                       Inl e \<Rightarrow> Inl e
                     | Inr row \<Rightarrow>
                         (case pearson row (archetypes ! archetype) of
                            Inl e \<Rightarrow> Inl e
                          | Inr rp \<Rightarrow> Inr (fst rp)))
                [0..<length archetypes]) of
        Inl e \<Rightarrow> Inl e
      | Inr arch_corrs \<Rightarrow>
     (case np_max arch_corrs of
        Inl e \<Rightarrow> Inl e
      | Inr best \<Rightarrow>
          if np_lt best (Fin match_threshold) then Inr ([no_archetype_message], None)
          else
            (case np_argmax arch_corrs of
               Inl e \<Rightarrow> Inl e
             | Inr archetype \<Rightarrow>
                 get_genes_from_spatial_archetype pearson sdge gene_names archetypes
                   (int archetype) pval_threshold)))"

section \<open>Predicates of the statements\<close>

text \<open>A distance: a finite value that is not negative, or \<open>inf\<close>.\<close>

fun nonneg :: "npfloat \<Rightarrow> bool" where
  "nonneg (Fin a) = (0 \<le> a)"
| "nonneg PInf = True"
| "nonneg x = False"

text \<open>
  An \<open>n \<times> n\<close> matrix of distances that is symmetric and has a zero diagonal: what
  \<open>floyd_warshall_numpy\<close> keeps at every round.
\<close>

definition distance_matrix :: "nat \<Rightarrow> matrix \<Rightarrow> bool" where
  "distance_matrix n A \<longleftrightarrow>
     length A = n \<and> (\<forall>r<n. length (A ! r) = n) \<and>
     (\<forall>r<n. \<forall>c<n. A ! r ! c = A ! c ! r \<and> nonneg (A ! r ! c)) \<and>
     (\<forall>r<n. A ! r ! r = Fin 0)"

text \<open>
  A square matrix equal to its transpose under the equality of floats, as
  \<open>(A == A.T).all()\<close> tests it: a matrix holding \<open>NaN\<close> is not symmetric.
\<close>

definition symmetric_matrix :: "matrix \<Rightarrow> bool" where
  "symmetric_matrix A \<longleftrightarrow>
     (\<forall>i<length A. length (A ! i) = length A) \<and>
     (\<forall>i<length A. \<forall>j<length A. np_eq (A ! i ! j) (A ! j ! i))"

definition zero_diagonal :: "matrix \<Rightarrow> bool" where
  "zero_diagonal A \<longleftrightarrow> (\<forall>i<length A. A ! i ! i = Fin 0)"

text \<open>Some finite entry is positive: the graph joins two distinct nodes.\<close>

definition has_positive_distance :: "matrix \<Rightarrow> bool" where
  "has_positive_distance A = list_ex (\<lambda>x. isfinite x \<and> np_lt (Fin 0) x) (concat A)"

text \<open>
  The archetype matrix in the words of the specification: one row per cluster id from 1
  to \<open>k\<close>, the mean of the rows of \<open>sdge\<close> that carry that id.
\<close>

definition archetype_rows :: "matrix \<Rightarrow> int list \<Rightarrow> int \<Rightarrow> matrix" where
  "archetype_rows sdge clusters k =
     map (\<lambda>x. mean_axis0 (ncols sdge)
                 (map (nth sdge) (filter (\<lambda>i. clusters ! i = x) [0..<length sdge]))) [1..k]"


section \<open>Properties of the shortest-path matrices\<close>

lemma np_add_commute: "np_add x y = np_add y x"
  by (cases x; cases y) simp_all

lemma nonneg_add: "nonneg x \<Longrightarrow> nonneg y \<Longrightarrow> nonneg (np_add x y)"
  by (cases x; cases y) simp_all

lemma nonneg_minimum: "nonneg x \<Longrightarrow> nonneg y \<Longrightarrow> nonneg (np_minimum x y)"
  by (cases x; cases y) (simp_all add: np_minimum_def)

lemma minimum_zero: "nonneg y \<Longrightarrow> np_minimum (Fin 0) y = Fin 0"
  by (cases y) (simp_all add: np_minimum_def)

lemma nonneg_cases: "nonneg x \<Longrightarrow> x = PInf \<or> (\<exists>a\<ge>0. x = Fin a)"
  by (cases x) simp_all

lemma distance_matrix_init:
  "distance_matrix (number_of_nodes G) (fill_diagonal (to_numpy_array G) (Fin 0))"
  by (auto simp: distance_matrix_def fill_diagonal_def to_numpy_array_def has_edge_def)

lemma distance_matrix_round:
  assumes "distance_matrix n A" "i < n"
  shows "distance_matrix n (fw_round A i)"
proof -
  have len: "length A = n" using assms by (simp add: distance_matrix_def)
  have nth: "fw_round A i ! r ! c = np_minimum (A ! r ! c) (np_add (A ! i ! c) (A ! r ! i))"
    if "r < n" "c < n" for r c
    using that by (simp add: fw_round_def len)
  have sym: "A ! r ! c = A ! c ! r" and nn: "nonneg (A ! r ! c)" if "r < n" "c < n" for r c
    using assms that by (simp_all add: distance_matrix_def)
  have dg: "A ! r ! r = Fin 0" if "r < n" for r
    using assms that by (simp add: distance_matrix_def)
  show ?thesis
    unfolding distance_matrix_def
  proof (intro conjI allI impI)
    show "length (fw_round A i) = n" by (simp add: fw_round_def len)
    show "length (fw_round A i ! r) = n" if "r < n" for r
      using that by (simp add: fw_round_def len)
    show "fw_round A i ! r ! c = fw_round A i ! c ! r" if "r < n" "c < n" for r c
      using that assms(2)
      by (simp add: nth sym[of r c] sym[of i c] sym[of r i] np_add_commute)
    show "nonneg (fw_round A i ! r ! c)" if "r < n" "c < n" for r c
      using that assms(2) by (simp add: nth nonneg_minimum nonneg_add nn)
    show "fw_round A i ! r ! r = Fin 0" if "r < n" for r
      using that assms(2) by (simp add: nth dg minimum_zero nonneg_add nn)
  qed
qed

lemma distance_matrix_rounds:
  "distance_matrix n A \<Longrightarrow> \<forall>i \<in> set is. i < n \<Longrightarrow> distance_matrix n (foldl fw_round A is)"
  by (induction "is" arbitrary: A) (simp_all add: distance_matrix_round)

lemma distance_matrix_floyd_warshall:
  "distance_matrix (number_of_nodes G) (floyd_warshall_numpy G)"
  unfolding floyd_warshall_numpy_def
  by (rule distance_matrix_rounds[OF distance_matrix_init]) simp

lemma shortest_paths_distance_matrix:
  assumes "shortest_paths kneighbors X k = Inr sp"
  shows "distance_matrix (length sp) sp"
proof -
  from assms obtain G where "sp = floyd_warshall_numpy G"
    by (auto simp: shortest_paths_def split: sum.splits)
  moreover have "length (floyd_warshall_numpy G) = number_of_nodes G"
    using distance_matrix_floyd_warshall[of G] by (simp add: distance_matrix_def)
  ultimately show ?thesis using distance_matrix_floyd_warshall[of G] by simp
qed

lemma in_concat_nth:
  "x \<in> set (concat A) \<longleftrightarrow> (\<exists>r<length A. \<exists>c<length (A ! r). x = A ! r ! c)"
proof
  assume "x \<in> set (concat A)"
  then obtain row where "row \<in> set A" "x \<in> set row" by auto
  then show "\<exists>r<length A. \<exists>c<length (A ! r). x = A ! r ! c"
    by (metis in_set_conv_nth)
next
  assume "\<exists>r<length A. \<exists>c<length (A ! r). x = A ! r ! c"
  then obtain r c where "r < length A" "c < length (A ! r)" "x = A ! r ! c" by blast
  then have "A ! r \<in> set A" "x \<in> set (A ! r)" by simp_all
  then show "x \<in> set (concat A)" by auto
qed

lemma distance_matrix_entries:
  assumes "distance_matrix n A" "x \<in> set (concat A)"
  shows "nonneg x"
  using assms unfolding in_concat_nth distance_matrix_def by auto

lemma distance_matrix_zero_entry:
  assumes "distance_matrix n A" "0 < n"
  shows "Fin 0 \<in> set (concat A)"
proof -
  have "0 < length A" "0 < length (A ! 0)" "A ! 0 ! 0 = Fin 0"
    using assms by (auto simp: distance_matrix_def)
  then show ?thesis unfolding in_concat_nth by metis
qed

subsection \<open>Reductions over finite entries\<close>

lemma foldl_fmax_finite:
  "list_all isfinite xs \<Longrightarrow>
     \<exists>m. foldl np_fmax (Fin a) xs = Fin m \<and> (m = a \<or> Fin m \<in> set xs) \<and> a \<le> m \<and>
         (\<forall>b. Fin b \<in> set xs \<longrightarrow> b \<le> m)"
proof (induction xs arbitrary: a)
  case Nil
  then show ?case by simp
next
  case (Cons x xs)
  then obtain b where x: "x = Fin b" by (cases x) simp_all
  have step: "np_fmax (Fin a) x = Fin (max a b)"
    by (simp add: x np_fmax_def max_def)
  from Cons.prems have "list_all isfinite xs" by simp
  from Cons.IH[OF this, of "max a b"] obtain m where
    m: "foldl np_fmax (Fin (max a b)) xs = Fin m" "m = max a b \<or> Fin m \<in> set xs"
       "max a b \<le> m" "\<forall>c. Fin c \<in> set xs \<longrightarrow> c \<le> m"
    by blast
  show ?case
  proof (intro exI[of _ m] conjI allI impI)
    show "foldl np_fmax (Fin a) (x # xs) = Fin m" using m(1) step by simp
    show "m = a \<or> Fin m \<in> set (x # xs)" using m(2) x by (auto simp: max_def split: if_splits)
    show "a \<le> m" using m(3) by simp
    show "c \<le> m" if "Fin c \<in> set (x # xs)" for c using that m(3,4) x by auto
  qed
qed

lemma foldl_maximum_finite:
  "list_all isfinite xs \<Longrightarrow> foldl np_maximum (Fin a) xs = foldl np_fmax (Fin a) xs"
proof (induction xs arbitrary: a)
  case Nil
  then show ?case by simp
next
  case (Cons x xs)
  then obtain b where x: "x = Fin b" by (cases x) simp_all
  have "np_maximum (Fin a) x = Fin (max a b)" "np_fmax (Fin a) x = Fin (max a b)"
    by (simp_all add: x np_fmax_def np_maximum_def max_def)
  then show ?case using Cons by simp
qed

lemma np_nanmax_finite:
  assumes "list_all isfinite xs" "xs \<noteq> []"
  shows "\<exists>m. np_nanmax xs = Inr (Fin m) \<and> Fin m \<in> set xs \<and> (\<forall>b. Fin b \<in> set xs \<longrightarrow> b \<le> m)"
proof -
  from assms obtain a r where xs: "xs = Fin a # r" "list_all isfinite r"
    by (cases xs; cases "hd xs") auto
  from foldl_fmax_finite[OF xs(2), of a] obtain m where
    "foldl np_fmax (Fin a) r = Fin m" "m = a \<or> Fin m \<in> set r" "a \<le> m"
    "\<forall>b. Fin b \<in> set r \<longrightarrow> b \<le> m"
    by blast
  then show ?thesis by (auto simp: np_nanmax_def xs(1))
qed

lemma np_max_finite:
  assumes "list_all isfinite xs" "xs \<noteq> []"
  shows "\<exists>m. np_max xs = Inr (Fin m) \<and> Fin m \<in> set xs \<and> (\<forall>b. Fin b \<in> set xs \<longrightarrow> b \<le> m)"
proof -
  from assms obtain a r where xs: "xs = Fin a # r" "list_all isfinite r"
    by (cases xs; cases "hd xs") auto
  have "np_max xs = np_nanmax xs"
    by (simp add: np_max_def np_nanmax_def xs(1) foldl_maximum_finite[OF xs(2)])
  then show ?thesis using np_nanmax_finite[OF assms] by simp
qed

subsection \<open>Thresholding and normalisation\<close>

lemma threshold_distance_matrix:
  assumes dm: "distance_matrix n sp" and n: "0 < n"
  shows "\<exists>m. Fin m \<in> set (concat sp) \<and> (\<forall>a. Fin a \<in> set (concat sp) \<longrightarrow> a \<le> m) \<and>
             np_nanmax (filter (\<lambda>x. np_ne x PInf) (concat sp)) = Inr (Fin m) \<and>
             threshold_shortest_paths sp =
               Inr (map (map (\<lambda>x. if x = PInf then Fin m else x)) sp)"
proof -
  let ?fs = "filter (\<lambda>x. np_ne x PInf) (concat sp)"
  have nn: "nonneg x" if "x \<in> set (concat sp)" for x
    using distance_matrix_entries[OF dm that] .
  have fin: "list_all isfinite ?fs"
    unfolding list_all_iff
  proof
    fix x assume "x \<in> set ?fs"
    then have "nonneg x" "x \<noteq> PInf" using nn by (auto simp: np_ne_def)
    then show "isfinite x" by (cases x) simp_all
  qed
  have "Fin 0 \<in> set ?fs"
    using distance_matrix_zero_entry[OF dm n] by (simp add: np_ne_def)
  then have ne: "?fs \<noteq> []" by (metis empty_iff list.set(1))
  from np_nanmax_finite[OF fin ne] obtain m where
    m: "np_nanmax ?fs = Inr (Fin m)" "Fin m \<in> set ?fs" "\<forall>b. Fin b \<in> set ?fs \<longrightarrow> b \<le> m"
    by blast
  have ub: "a \<le> m" if "Fin a \<in> set (concat sp)" for a
    using m(3) that by (simp add: np_ne_def)
  have ent: "(if np_gt x (Fin m) then Fin m else x) = (if x = PInf then Fin m else x)"
    if "x \<in> set (concat sp)" for x
  proof (cases x)
    case (Fin a)
    with ub that have "a \<le> m" by simp
    then show ?thesis by (simp add: Fin np_gt_def)
  qed (use nn[OF that] in \<open>simp_all add: np_gt_def\<close>)
  have "map (map (\<lambda>x. if np_gt x (Fin m) then Fin m else x)) sp =
        map (map (\<lambda>x. if x = PInf then Fin m else x)) sp"
  proof (rule map_cong[OF refl], rule map_cong[OF refl])
    fix row x assume "row \<in> set sp" "x \<in> set row"
    then have "x \<in> set (concat sp)" by auto
    then show "(if np_gt x (Fin m) then Fin m else x) = (if x = PInf then Fin m else x)"
      by (rule ent)
  qed
  then show ?thesis
    using m(1,2) ub by (intro exI[of _ m]) (simp add: threshold_shortest_paths_def)
qed

lemma finite_list_reals: "list_all isfinite xs \<Longrightarrow> \<exists>ys. xs = map Fin ys"
proof (induction xs)
  case Nil
  then show ?case by simp
next
  case (Cons x xs)
  then obtain a ys where "x = Fin a" "xs = map Fin ys" by (cases x) auto
  then have "x # xs = map Fin (a # ys)" by simp
  then show ?case by (rule exI)
qed

lemma foldl_add_reals: "foldl np_add (Fin s) (map Fin ys) = Fin (s + sum_list ys)"
  by (induction ys arbitrary: s) (simp_all add: add.assoc)

lemma np_sum_reals: "np_sum (map Fin ys) = Fin (sum_list ys)"
  by (simp add: np_sum_def foldl_add_reals)

lemma np_mean_reals:
  "ys \<noteq> [] \<Longrightarrow> np_mean (map Fin ys) = Fin (sum_list ys / real (length ys))"
  by (simp add: np_mean_def np_sum_reals)

lemma sum_list_shift:
  "sum_list (map (\<lambda>z. z - c) zs) = sum_list zs - real (length zs) * (c::real)"
  by (induction zs) (simp_all add: algebra_simps)

lemma concat_map_map: "concat (map (map f) A) = map f (concat A)"
  by (induction A) simp_all

lemma normalized_cost_finite:
  assumes fin: "list_all isfinite (concat A)" and ne: "concat A \<noteq> []"
    and mx: "np_max (concat A) = Inr (Fin m)" and m: "m \<noteq> 0"
  shows "\<exists>\<mu>. normalized_cost A = Inr (map (map (\<lambda>x. np_sub (np_div x (Fin m)) (Fin \<mu>))) A) \<and>
             np_mean (concat (map (map (\<lambda>x. np_sub (np_div x (Fin m)) (Fin \<mu>))) A)) = Fin 0"
proof -
  from finite_list_reals[OF fin] obtain ys where ys: "concat A = map Fin ys" by blast
  with ne have ysne: "ys \<noteq> []" by auto
  let ?zs = "map (\<lambda>a. a / m) ys"
  let ?\<mu> = "sum_list ?zs / real (length ?zs)"
  have cost: "concat (map (map (\<lambda>x. np_div x (Fin m))) A) = map Fin ?zs"
    by (simp add: concat_map_map ys m)
  have "np_mean (map Fin ?zs) = Fin ?\<mu>"
    by (rule np_mean_reals) (use ysne in simp)
  then have mean: "np_mean (concat (map (map (\<lambda>x. np_div x (Fin m))) A)) = Fin ?\<mu>"
    by (simp only: cost)
  have nc: "normalized_cost A = Inr (map (map (\<lambda>x. np_sub (np_div x (Fin m)) (Fin ?\<mu>))) A)"
    unfolding normalized_cost_def mx using mean by (simp add: Let_def comp_def)
  have "concat (map (map (\<lambda>x. np_sub (np_div x (Fin m)) (Fin ?\<mu>))) A) =
        map Fin (map (\<lambda>z. z - ?\<mu>) ?zs)"
    by (simp add: concat_map_map ys m np_sub_def comp_def)
  moreover have "np_mean (map Fin (map (\<lambda>z. z - ?\<mu>) ?zs)) = Fin 0"
  proof -
    have "map (\<lambda>z. z - ?\<mu>) ?zs \<noteq> []" using ysne by simp
    from np_mean_reals[OF this] show ?thesis
      unfolding sum_list_shift using ysne by simp
  qed
  ultimately show ?thesis using nc by (intro exI[of _ ?\<mu>]) simp
qed

lemma setup_stages:
  assumes "setup_for_OT_reconstruction kn dge loc ks kt = Inr (ce, cl)"
  shows "\<exists>spe spl spe'. shortest_paths kn dge ks = Inr spe \<and> shortest_paths kn loc kt = Inr spl \<and>
           threshold_shortest_paths spe = Inr spe' \<and> normalized_cost spl = Inr cl \<and>
           normalized_cost spe' = Inr ce"
  using assms by (auto simp: setup_for_OT_reconstruction_def split: sum.splits)

lemma distance_matrix_symmetric:
  assumes "distance_matrix n A"
  shows "symmetric_matrix A" and "zero_diagonal A"
proof -
  have "np_eq x x" if "nonneg x" for x
    using that by (cases x) (simp_all add: np_eq_def np_ne_def)
  then show "symmetric_matrix A"
    using assms unfolding symmetric_matrix_def distance_matrix_def by metis
  show "zero_diagonal A"
    using assms unfolding zero_diagonal_def distance_matrix_def by metis
qed

lemma map_map_symmetric:
  assumes dm: "distance_matrix n A" and f: "\<And>x. nonneg x \<Longrightarrow> isfinite (f x)"
  shows "symmetric_matrix (map (map f) A)"
proof -
  have len: "length A = n" and rows: "\<And>r. r < n \<Longrightarrow> length (A ! r) = n"
    using dm by (simp_all add: distance_matrix_def)
  have sym: "A ! r ! c = A ! c ! r" and nn: "nonneg (A ! r ! c)" if "r < n" "c < n" for r c
    using dm that by (simp_all add: distance_matrix_def)
  have eq: "np_eq x x" if "isfinite x" for x
    using that by (cases x) (simp_all add: np_eq_def np_ne_def)
  show ?thesis
    unfolding symmetric_matrix_def
  proof (intro conjI allI impI)
    show "length (map (map f) A ! i) = length (map (map f) A)" if "i < length (map (map f) A)" for i
      using that len rows by simp
    show "np_eq (map (map f) A ! i ! j) (map (map f) A ! j ! i)"
      if "i < length (map (map f) A)" "j < length (map (map f) A)" for i j
    proof -
      have ij: "i < n" "j < n" using that len by simp_all
      then have "map (map f) A ! i ! j = f (A ! i ! j)" "map (map f) A ! j ! i = f (A ! i ! j)"
        using len rows sym[of i j] by simp_all
      then show ?thesis using eq[OF f[OF nn[OF ij]]] by simp
    qed
  qed
qed

lemma has_positive_distance_iff:
  "has_positive_distance A \<longleftrightarrow> (\<exists>a>0. Fin a \<in> set (concat A))"
proof
  assume "has_positive_distance A"
  then obtain x where x: "x \<in> set (concat A)" "isfinite x" "np_lt (Fin 0) x"
    unfolding has_positive_distance_def list_ex_iff by blast
  from x(2) obtain a where "x = Fin a" by (cases x) simp_all
  with x show "\<exists>a>0. Fin a \<in> set (concat A)" by auto
next
  assume "\<exists>a>0. Fin a \<in> set (concat A)"
  then obtain a where "0 < a" "Fin a \<in> set (concat A)" by blast
  then show "has_positive_distance A"
    unfolding has_positive_distance_def list_ex_iff by (intro bexI[of _ "Fin a"]) simp_all
qed

lemma expression_cost:
  assumes dm: "distance_matrix n spe" and th: "threshold_shortest_paths spe = Inr spe'"
    and nc: "normalized_cost spe' = Inr ce" and pos: "has_positive_distance spe"
  shows "\<exists>m \<mu>. 0 < m \<and> Fin m \<in> set (concat spe) \<and> (\<forall>b. Fin b \<in> set (concat spe) \<longrightarrow> b \<le> m) \<and>
           ce = map (map (\<lambda>x. np_sub (np_div (if x = PInf then Fin m else x) (Fin m)) (Fin \<mu>))) spe \<and>
           np_mean (concat ce) = Fin 0"
proof -
  from pos obtain a where a: "0 < a" "Fin a \<in> set (concat spe)"
    unfolding has_positive_distance_iff by blast
  have n: "0 < n"
  proof (rule ccontr)
    assume "\<not> 0 < n"
    then have "spe = []" using dm by (simp add: distance_matrix_def)
    with a show False by simp
  qed
  let ?clip = "\<lambda>m x. if x = PInf then Fin m else x"
  from threshold_distance_matrix[OF dm n] th obtain m where
    m: "Fin m \<in> set (concat spe)" "\<forall>b. Fin b \<in> set (concat spe) \<longrightarrow> b \<le> m"
       "spe' = map (map (?clip m)) spe"
    by auto
  have am: "a \<le> m" using a m(2) by blast
  have cc: "concat spe' = map (?clip m) (concat spe)"
    unfolding m(3) by (rule concat_map_map)
  have fin: "list_all isfinite (concat spe')"
    unfolding cc list_all_iff
  proof
    fix y assume "y \<in> set (map (?clip m) (concat spe))"
    then obtain x where x: "x \<in> set (concat spe)" "y = ?clip m x"
      by (auto simp del: set_concat)
    with distance_matrix_entries[OF dm x(1)] show "isfinite y" by (cases x) simp_all
  qed
  have "concat spe \<noteq> []" using a(2) by (metis empty_iff list.set(1))
  then have ne: "concat spe' \<noteq> []" using cc by simp
  from np_max_finite[OF fin ne] obtain m' where
    m': "np_max (concat spe') = Inr (Fin m')" "Fin m' \<in> set (concat spe')"
        "\<forall>b. Fin b \<in> set (concat spe') \<longrightarrow> b \<le> m'"
    by blast
  have "?clip m (Fin m) \<in> ?clip m ` set (concat spe)"
    using m(1) by (rule imageI)
  then have "Fin m \<in> set (concat spe')"
    unfolding cc set_map by simp
  then have "m \<le> m'" using m'(3) by blast
  moreover have "m' \<le> m"
  proof -
    from m'(2) obtain x where x: "x \<in> set (concat spe)" "Fin m' = ?clip m x"
      unfolding cc by (auto simp del: set_concat)
    then show ?thesis using m(2) by (cases "x = PInf") auto
  qed
  ultimately have mm: "m' = m" by simp
  have mpos: "0 < m" using a(1) am by simp
  from normalized_cost_finite[OF fin ne m'(1)[unfolded mm]] mpos nc obtain \<mu> where
    \<mu>: "ce = map (map (\<lambda>x. np_sub (np_div x (Fin m)) (Fin \<mu>))) spe'" "np_mean (concat ce) = Fin 0"
    by auto
  have "ce = map (map (\<lambda>x. np_sub (np_div (?clip m x) (Fin m)) (Fin \<mu>))) spe"
    unfolding \<mu>(1) m(3) by (simp add: comp_def)
  then show ?thesis using mpos m(1,2) \<mu>(2) by blast
qed

lemma locations_cost:
  assumes dm: "distance_matrix n spl" and fin: "list_all isfinite (concat spl)"
    and nc: "normalized_cost spl = Inr cl" and pos: "has_positive_distance spl"
  shows "\<exists>m \<mu>. 0 < m \<and> cl = map (map (\<lambda>x. np_sub (np_div x (Fin m)) (Fin \<mu>))) spl \<and>
           np_mean (concat cl) = Fin 0"
proof -
  from pos obtain a where a: "0 < a" "Fin a \<in> set (concat spl)"
    unfolding has_positive_distance_iff by blast
  then have ne: "concat spl \<noteq> []" by (metis empty_iff list.set(1))
  from np_max_finite[OF fin ne] obtain m where
    m: "np_max (concat spl) = Inr (Fin m)" "\<forall>b. Fin b \<in> set (concat spl) \<longrightarrow> b \<le> m"
    by blast
  have mpos: "0 < m" using a m(2) by force
  from normalized_cost_finite[OF fin ne m(1)] mpos nc show ?thesis by auto
qed

lemma finite_cost_entry: "nonneg x \<Longrightarrow> 0 < m \<Longrightarrow> isfinite (np_sub (np_div (if x = PInf then Fin m else x) (Fin m)) (Fin \<mu>))"
  by (cases x) (simp_all add: np_sub_def)

lemma foldl_maximum_PInf: "list_all nonneg xs \<Longrightarrow> foldl np_maximum PInf xs = PInf"
proof (induction xs)
  case Nil
  then show ?case by simp
next
  case (Cons y ys)
  then have "np_maximum PInf y = PInf" by (cases y) (simp_all add: np_maximum_def)
  with Cons show ?case by simp
qed

lemma foldl_maximum_nonneg:
  "list_all nonneg xs \<Longrightarrow> nonneg x \<Longrightarrow> foldl np_maximum x xs = Fin m \<Longrightarrow>
     \<forall>y \<in> set (x # xs). \<exists>b. y = Fin b \<and> b \<le> m"
proof (induction xs arbitrary: x)
  case Nil
  then show ?case by simp
next
  case (Cons y ys)
  have ys: "list_all nonneg ys" and y: "nonneg y" using Cons.prems(1) by simp_all
  show ?case
  proof (cases "x = PInf \<or> y = PInf")
    case True
    then have "np_maximum x y = PInf"
      using Cons.prems(2) y by (cases x; cases y) (simp_all add: np_maximum_def)
    then have "foldl np_maximum x (y # ys) = PInf"
      using foldl_maximum_PInf[OF ys] by simp
    with Cons.prems(3) show ?thesis by simp
  next
    case False
    then obtain a b where ab: "x = Fin a" "y = Fin b"
      using Cons.prems(2) y by (cases x; cases y) simp_all
    have step: "np_maximum x y = Fin (max a b)"
      by (simp add: ab np_maximum_def max_def)
    then have "foldl np_maximum (Fin (max a b)) ys = Fin m"
      using Cons.prems(3) by simp
    moreover have "nonneg (Fin (max a b))"
      using Cons.prems(2) y ab by (simp add: max_def)
    ultimately have
      "\<forall>z \<in> set (Fin (max a b) # ys). \<exists>c. z = Fin c \<and> c \<le> m"
      using Cons.IH[OF ys] by blast
    then show ?thesis using ab by auto
  qed
qed

lemma np_max_zero_entries:
  assumes nn: "\<forall>x \<in> set xs. nonneg x" and mx: "np_max xs = Inr (Fin 0)"
  shows "\<forall>x \<in> set xs. x = Fin 0"
proof -
  from mx obtain x r where xs: "xs = x # r" "foldl np_maximum x r = Fin 0"
    by (cases xs) (simp_all add: np_max_def)
  have "list_all nonneg r" "nonneg x" using nn xs(1) by (simp_all add: list_all_iff)
  from foldl_maximum_nonneg[OF this xs(2)] have "\<forall>y \<in> set xs. \<exists>b. y = Fin b \<and> b \<le> 0"
    using xs(1) by simp
  with nn show ?thesis by fastforce
qed

lemma normalized_cost_total: "concat A \<noteq> [] \<Longrightarrow> \<exists>C. normalized_cost A = Inr C"
  by (cases "concat A") (simp_all add: normalized_cost_def np_max_def Let_def)

lemma normalized_cost_zero:
  assumes z: "\<forall>x \<in> set (concat A). x = Fin 0" and nc: "normalized_cost A = Inr C"
  shows "list_all (\<lambda>x. x = NaN) (concat C)"
proof -
  from nc obtain m where m: "np_max (concat A) = Inr m"
    by (auto simp: normalized_cost_def split: sum.splits)
  define \<mu> where "\<mu> = np_mean (concat (map (map (\<lambda>x. np_div x m)) A))"
  have C: "C = map (map (\<lambda>x. np_sub x \<mu>)) (map (map (\<lambda>x. np_div x m)) A)"
    using nc unfolding normalized_cost_def m \<mu>_def by (simp add: Let_def)
  have ne: "concat A \<noteq> []" using m by (cases "concat A") (simp_all add: np_max_def)
  have fin: "list_all isfinite (concat A)" using z by (auto simp: list_all_iff simp del: set_concat)
  from np_max_finite[OF fin ne] m z have m0: "m = Fin 0" by (auto simp del: set_concat)
  have "concat C = map (\<lambda>x. np_sub x \<mu>) (map (\<lambda>x. np_div x m) (concat A))"
    unfolding C by (simp only: concat_map_map)
  then show ?thesis using z by (auto simp: list_all_iff m0 np_sub_def simp del: set_concat)
qed

section \<open>Claims about setup_for_OT_reconstruction\<close>

text \<open>
  C1 (as amended). The function has no guard for a zero maximum: whenever both neighbour
  graphs are built (on at least one node) it returns a pair of cost matrices and reports
  no condition. Where the maximum shortest-path distance of the location space is zero,
  every entry of \<open>cost_locations\<close> is \<open>NaN\<close>; where the maximum finite shortest-path
  distance of the expression space (\<open>sp_expression_max\<close> of line 37) is zero, every entry
  of \<open>cost_expression\<close> is \<open>NaN\<close>.
\<close>

theorem setup_zero_maximum_returns_nan:
  assumes spe: "shortest_paths kneighbors dge num_neighbors_source = Inr sp_expression"
    and spl: "shortest_paths kneighbors locations num_neighbors_target = Inr sp_locations"
    and ne: "sp_expression \<noteq> []" "sp_locations \<noteq> []"
  shows "\<exists>cost_expression cost_locations.
           setup_for_OT_reconstruction kneighbors dge locations
             num_neighbors_source num_neighbors_target = Inr (cost_expression, cost_locations) \<and>
           (np_max (concat sp_locations) = Inr (Fin 0) \<longrightarrow>
              list_all (\<lambda>x. x = NaN) (concat cost_locations)) \<and>
           (np_nanmax (filter (\<lambda>x. np_ne x PInf) (concat sp_expression)) = Inr (Fin 0) \<longrightarrow>
              list_all (\<lambda>x. x = NaN) (concat cost_expression))"
proof -
  have dme: "distance_matrix (length sp_expression) sp_expression"
    and dml: "distance_matrix (length sp_locations) sp_locations"
    using shortest_paths_distance_matrix spe spl by blast+
  have ne': "0 < length sp_expression" "0 < length sp_locations" using ne by simp_all
  from threshold_distance_matrix[OF dme ne'(1)] obtain m where
    m: "Fin m \<in> set (concat sp_expression)"
       "np_nanmax (filter (\<lambda>x. np_ne x PInf) (concat sp_expression)) = Inr (Fin m)"
       "threshold_shortest_paths sp_expression =
          Inr (map (map (\<lambda>x. if x = PInf then Fin m else x)) sp_expression)"
    by blast
  let ?spe' = "map (map (\<lambda>x. if x = PInf then Fin m else x)) sp_expression"
  have cc: "concat ?spe' = map (\<lambda>x. if x = PInf then Fin m else x) (concat sp_expression)"
    by (rule concat_map_map)
  have "concat sp_expression \<noteq> []" using m(1) by (metis empty_iff list.set(1))
  then have "concat ?spe' \<noteq> []" unfolding cc by simp
  from normalized_cost_total[OF this] obtain ce where ce: "normalized_cost ?spe' = Inr ce"
    by blast
  have "concat sp_locations \<noteq> []"
    using distance_matrix_zero_entry[OF dml ne'(2)] by (metis empty_iff list.set(1))
  from normalized_cost_total[OF this] obtain cl where cl: "normalized_cost sp_locations = Inr cl"
    by blast
  have ret: "setup_for_OT_reconstruction kneighbors dge locations
               num_neighbors_source num_neighbors_target = Inr (ce, cl)"
    by (simp add: setup_for_OT_reconstruction_def spe spl m(3) ce cl)
  have loc: "list_all (\<lambda>x. x = NaN) (concat cl)" if "np_max (concat sp_locations) = Inr (Fin 0)"
  proof -
    have "\<forall>x \<in> set (concat sp_locations). nonneg x"
      using distance_matrix_entries[OF dml] by blast
    from np_max_zero_entries[OF this that] show ?thesis
      by (rule normalized_cost_zero[OF _ cl])
  qed
  have expr: "list_all (\<lambda>x. x = NaN) (concat ce)"
    if "np_nanmax (filter (\<lambda>x. np_ne x PInf) (concat sp_expression)) = Inr (Fin 0)"
  proof -
    from that m(2) have m0: "m = 0" by simp
    have "\<forall>y \<in> set (concat ?spe'). y = Fin 0"
      unfolding cc
    proof
      fix y assume "y \<in> set (map (\<lambda>x. if x = PInf then Fin m else x) (concat sp_expression))"
      then obtain x where x: "x \<in> set (concat sp_expression)"
        "y = (if x = PInf then Fin m else x)"
        by (auto simp del: set_concat)
      from threshold_distance_matrix[OF dme ne'(1)] m(2) have
        ub: "\<forall>a. Fin a \<in> set (concat sp_expression) \<longrightarrow> a \<le> m" by auto
      show "y = Fin 0"
      proof (cases x)
        case (Fin a)
        with x(1) ub distance_matrix_entries[OF dme x(1)] have "a = 0" using m0 by auto
        then show ?thesis using x(2) Fin by simp
      qed (use x(2) m0 distance_matrix_entries[OF dme x(1)] in simp_all)
    qed
    then show ?thesis by (rule normalized_cost_zero[OF _ ce])
  qed
  show ?thesis using ret loc expr by blast
qed

text \<open>
  C1 as stated fails: on a single node (one cell, one neighbour) both shortest-path
  matrices are \<open>[[0]]\<close>, and the function returns \<open>NaN\<close> matrices instead of failing.
\<close>

theorem setup_zero_maximum_counterexample:
  "shortest_paths kneighbors_graph [[Fin 0]] 1 = Inr [[Fin 0]] \<and>
   shortest_paths kneighbors_graph [[Fin 0, Fin 0]] 1 = Inr [[Fin 0]] \<and>
   setup_for_OT_reconstruction kneighbors_graph [[Fin 0]] [[Fin 0, Fin 0]] 1 1 =
     Inr ([[NaN]], [[NaN]])"
  by code_simp

text \<open>The amended C1 on two cells with one neighbour each (every cell its own neighbour).\<close>

theorem setup_zero_maximum_returns_nan_witness:
  "shortest_paths kneighbors_graph [[Fin 5], [Fin 7]] 1 = Inr [[Fin 0, PInf], [PInf, Fin 0]] \<and>
   shortest_paths kneighbors_graph [[Fin 0, Fin 0], [Fin 3, Fin 4]] 1
     = Inr [[Fin 0, PInf], [PInf, Fin 0]] \<and>
   np_nanmax (filter (\<lambda>x. np_ne x PInf) (concat [[Fin 0, PInf], [PInf, Fin 0]])) = Inr (Fin 0) \<and>
   setup_for_OT_reconstruction kneighbors_graph [[Fin 5], [Fin 7]]
     [[Fin 0, Fin 0], [Fin 3, Fin 4]] 1 1 =
     Inr ([[NaN, NaN], [NaN, NaN]], [[NaN, NaN], [NaN, NaN]])"
proof -
  have e: "shortest_paths kneighbors_graph [[Fin 5], [Fin 7]] 1
             = Inr [[Fin 0, PInf], [PInf, Fin 0]]"
    by code_simp
  have l: "shortest_paths kneighbors_graph [[Fin 0, Fin 0], [Fin 3, Fin 4]] 1
             = Inr [[Fin 0, PInf], [PInf, Fin 0]]"
    by code_simp
  have z: "np_nanmax (filter (\<lambda>x. np_ne x PInf) (concat [[Fin 0, PInf], [PInf, Fin 0]]))
             = Inr (Fin 0)"
    by code_simp
  have r: "setup_for_OT_reconstruction kneighbors_graph [[Fin 5], [Fin 7]]
             [[Fin 0, Fin 0], [Fin 3, Fin 4]] 1 1 =
           Inr ([[NaN, NaN], [NaN, NaN]], [[NaN, NaN], [NaN, NaN]])"
    by code_simp
  from setup_zero_maximum_returns_nan[OF e l] z r show ?thesis
    using e l by simp
qed

text \<open>
  C2. Whenever the function returns, \<open>cost_expression\<close> is the normalised cost of the
  expression shortest-path matrix in which every \<open>inf\<close> entry has been replaced by \<open>m\<close>,
  the greatest finite entry of that matrix, and \<open>cost_locations\<close> is the normalised cost
  of the location shortest-path matrix as it is, with no entry replaced.
\<close>

theorem expression_infinities_clipped_locations_not:
  assumes "setup_for_OT_reconstruction kneighbors dge locations
             num_neighbors_source num_neighbors_target = Inr (cost_expression, cost_locations)"
  shows "\<exists>sp_expression sp_locations m.
           shortest_paths kneighbors dge num_neighbors_source = Inr sp_expression \<and>
           shortest_paths kneighbors locations num_neighbors_target = Inr sp_locations \<and>
           Fin m \<in> set (concat sp_expression) \<and>
           (\<forall>a. Fin a \<in> set (concat sp_expression) \<longrightarrow> a \<le> m) \<and>
           normalized_cost (map (map (\<lambda>x. if x = PInf then Fin m else x)) sp_expression)
             = Inr cost_expression \<and>
           normalized_cost sp_locations = Inr cost_locations"
proof -
  from setup_stages[OF assms] obtain spe spl spe' where
    st: "shortest_paths kneighbors dge num_neighbors_source = Inr spe"
        "shortest_paths kneighbors locations num_neighbors_target = Inr spl"
        "threshold_shortest_paths spe = Inr spe'"
        "normalized_cost spl = Inr cost_locations" "normalized_cost spe' = Inr cost_expression"
    by blast
  have dm: "distance_matrix (length spe) spe" using shortest_paths_distance_matrix[OF st(1)] .
  have "spe \<noteq> []"
  proof
    assume "spe = []"
    then have "threshold_shortest_paths spe = Inl ValueError"
      by (simp add: threshold_shortest_paths_def np_nanmax_def)
    with st(3) show False by simp
  qed
  then have "0 < length spe" by simp
  from threshold_distance_matrix[OF dm this] st(3) obtain m where
    "Fin m \<in> set (concat spe)" "\<forall>a. Fin a \<in> set (concat spe) \<longrightarrow> a \<le> m"
    "spe' = map (map (\<lambda>x. if x = PInf then Fin m else x)) spe"
    by auto
  then show ?thesis using st(1,2,4,5) by blast
qed

text \<open>
  C2 on four cells in two far groups, two neighbours each: both graphs are disconnected,
  the expression costs are finite and the location costs are not.
\<close>

theorem expression_infinities_clipped_locations_not_witness:
  "setup_for_OT_reconstruction kneighbors_graph
     [[Fin 0], [Fin 1], [Fin 100], [Fin 101]]
     [[Fin 0, Fin 0], [Fin 1, Fin 0], [Fin 100, Fin 0], [Fin 101, Fin 0]] 2 2 =
   Inr ([[Fin (- (3 / 4)), Fin (1 / 4), Fin (1 / 4), Fin (1 / 4)],
         [Fin (1 / 4), Fin (- (3 / 4)), Fin (1 / 4), Fin (1 / 4)],
         [Fin (1 / 4), Fin (1 / 4), Fin (- (3 / 4)), Fin (1 / 4)],
         [Fin (1 / 4), Fin (1 / 4), Fin (1 / 4), Fin (- (3 / 4))]],
        [[NaN, NaN, NaN, NaN], [NaN, NaN, NaN, NaN],
         [NaN, NaN, NaN, NaN], [NaN, NaN, NaN, NaN]]) \<and>
   (\<exists>sp_expression sp_locations m.
      shortest_paths kneighbors_graph [[Fin 0], [Fin 1], [Fin 100], [Fin 101]] 2
        = Inr sp_expression \<and>
      shortest_paths kneighbors_graph
        [[Fin 0, Fin 0], [Fin 1, Fin 0], [Fin 100, Fin 0], [Fin 101, Fin 0]] 2
        = Inr sp_locations \<and>
      Fin m \<in> set (concat sp_expression) \<and>
      (\<forall>a. Fin a \<in> set (concat sp_expression) \<longrightarrow> a \<le> m) \<and>
      normalized_cost (map (map (\<lambda>x. if x = PInf then Fin m else x)) sp_expression)
        = Inr [[Fin (- (3 / 4)), Fin (1 / 4), Fin (1 / 4), Fin (1 / 4)],
               [Fin (1 / 4), Fin (- (3 / 4)), Fin (1 / 4), Fin (1 / 4)],
               [Fin (1 / 4), Fin (1 / 4), Fin (- (3 / 4)), Fin (1 / 4)],
               [Fin (1 / 4), Fin (1 / 4), Fin (1 / 4), Fin (- (3 / 4))]] \<and>
      normalized_cost sp_locations
        = Inr [[NaN, NaN, NaN, NaN], [NaN, NaN, NaN, NaN],
               [NaN, NaN, NaN, NaN], [NaN, NaN, NaN, NaN]])"
proof -
  have r: "setup_for_OT_reconstruction kneighbors_graph
     [[Fin 0], [Fin 1], [Fin 100], [Fin 101]]
     [[Fin 0, Fin 0], [Fin 1, Fin 0], [Fin 100, Fin 0], [Fin 101, Fin 0]] 2 2 =
   Inr ([[Fin (- (3 / 4)), Fin (1 / 4), Fin (1 / 4), Fin (1 / 4)],
         [Fin (1 / 4), Fin (- (3 / 4)), Fin (1 / 4), Fin (1 / 4)],
         [Fin (1 / 4), Fin (1 / 4), Fin (- (3 / 4)), Fin (1 / 4)],
         [Fin (1 / 4), Fin (1 / 4), Fin (1 / 4), Fin (- (3 / 4))]],
        [[NaN, NaN, NaN, NaN], [NaN, NaN, NaN, NaN],
         [NaN, NaN, NaN, NaN], [NaN, NaN, NaN, NaN]])"
    by code_simp
  from r expression_infinities_clipped_locations_not[OF r] show ?thesis by (rule conjI)
qed

text \<open>
  C3 (as amended). Whenever the function returns, both shortest-path matrices are
  symmetric with a zero diagonal. \<open>cost_expression\<close> is symmetric with global mean zero
  (within floating tolerance) when the expression graph joins two distinct nodes;
  \<open>cost_locations\<close> is symmetric with global mean zero (within floating tolerance) when
  the location graph is connected (its shortest-path matrix has no \<open>inf\<close>) and joins two
  distinct nodes. The finite entries are exact reals here, rounding being left out: the
  mean that the float arithmetic brings to zero within its tolerance is exactly zero in
  the statement below.
\<close>

theorem cost_matrices_symmetric_centred:
  assumes "setup_for_OT_reconstruction kneighbors dge locations
             num_neighbors_source num_neighbors_target = Inr (cost_expression, cost_locations)"
  shows "\<exists>sp_expression sp_locations.
           shortest_paths kneighbors dge num_neighbors_source = Inr sp_expression \<and>
           shortest_paths kneighbors locations num_neighbors_target = Inr sp_locations \<and>
           symmetric_matrix sp_expression \<and> zero_diagonal sp_expression \<and>
           symmetric_matrix sp_locations \<and> zero_diagonal sp_locations \<and>
           (has_positive_distance sp_expression \<longrightarrow>
              symmetric_matrix cost_expression \<and> np_mean (concat cost_expression) = Fin 0) \<and>
           (list_all isfinite (concat sp_locations) \<and> has_positive_distance sp_locations \<longrightarrow>
              symmetric_matrix cost_locations \<and> np_mean (concat cost_locations) = Fin 0)"
proof -
  from setup_stages[OF assms] obtain spe spl spe' where
    st: "shortest_paths kneighbors dge num_neighbors_source = Inr spe"
        "shortest_paths kneighbors locations num_neighbors_target = Inr spl"
        "threshold_shortest_paths spe = Inr spe'"
        "normalized_cost spl = Inr cost_locations" "normalized_cost spe' = Inr cost_expression"
    by blast
  have dme: "distance_matrix (length spe) spe" and dml: "distance_matrix (length spl) spl"
    using shortest_paths_distance_matrix st(1,2) by blast+
  have e: "symmetric_matrix cost_expression \<and> np_mean (concat cost_expression) = Fin 0"
    if "has_positive_distance spe"
  proof -
    from expression_cost[OF dme st(3,5) that] obtain m \<mu> where
      m: "0 < m"
         "cost_expression =
            map (map (\<lambda>x. np_sub (np_div (if x = PInf then Fin m else x) (Fin m)) (Fin \<mu>))) spe"
         "np_mean (concat cost_expression) = Fin 0"
      by blast
    have "symmetric_matrix cost_expression"
      unfolding m(2) by (rule map_map_symmetric[OF dme]) (rule finite_cost_entry[OF _ m(1)])
    then show ?thesis using m(3) by simp
  qed
  have l: "symmetric_matrix cost_locations \<and> np_mean (concat cost_locations) = Fin 0"
    if "list_all isfinite (concat spl) \<and> has_positive_distance spl"
  proof -
    from that have fin: "list_all isfinite (concat spl)" and pos: "has_positive_distance spl"
      by simp_all
    from locations_cost[OF dml fin st(4) pos] obtain m \<mu> where
      m: "0 < m" "cost_locations = map (map (\<lambda>x. np_sub (np_div x (Fin m)) (Fin \<mu>))) spl"
         "np_mean (concat cost_locations) = Fin 0"
      by blast
    have f: "isfinite (np_sub (np_div x (Fin m)) (Fin \<mu>))" if "nonneg x" "x \<noteq> PInf" for x
      using that m(1) by (cases x) (simp_all add: np_sub_def)
    have noinf: "x \<noteq> PInf" if "x \<in> set (concat spl)" for x
      using fin that unfolding list_all_iff by (metis isfinite.simps(2))
    let ?g = "\<lambda>x. if x = PInf then Fin 0 else np_sub (np_div x (Fin m)) (Fin \<mu>)"
    have eq: "map (map (\<lambda>x. np_sub (np_div x (Fin m)) (Fin \<mu>))) spl = map (map ?g) spl"
    proof (rule map_cong[OF refl], rule map_cong[OF refl])
      fix row x assume "row \<in> set spl" "x \<in> set row"
      then have "x \<in> set (concat spl)" by auto
      from noinf[OF this] show "np_sub (np_div x (Fin m)) (Fin \<mu>) = ?g x" by simp
    qed
    have "symmetric_matrix (map (map ?g) spl)"
      by (rule map_map_symmetric[OF dml]) (use f in auto)
    then have "symmetric_matrix cost_locations"
      unfolding m(2) eq .
    then show ?thesis using m(3) by simp
  qed
  show ?thesis
    using st(1,2) distance_matrix_symmetric[OF dme] distance_matrix_symmetric[OF dml] e l
    by blast
qed

text \<open>
  C3 as stated fails on four locations in two far groups with two neighbours each: the
  location graph is disconnected, its shortest-path matrix keeps \<open>inf\<close>, and every entry
  of \<open>cost_locations\<close> is \<open>NaN\<close>, so that the matrix is neither symmetric nor of mean zero.
\<close>

theorem cost_matrices_symmetric_centred_counterexample:
  "setup_for_OT_reconstruction kneighbors_graph
     [[Fin 0], [Fin 1], [Fin 100], [Fin 101]]
     [[Fin 0, Fin 0], [Fin 1, Fin 0], [Fin 100, Fin 0], [Fin 101, Fin 0]] 2 2 =
   Inr ([[Fin (- (3 / 4)), Fin (1 / 4), Fin (1 / 4), Fin (1 / 4)],
         [Fin (1 / 4), Fin (- (3 / 4)), Fin (1 / 4), Fin (1 / 4)],
         [Fin (1 / 4), Fin (1 / 4), Fin (- (3 / 4)), Fin (1 / 4)],
         [Fin (1 / 4), Fin (1 / 4), Fin (1 / 4), Fin (- (3 / 4))]],
        [[NaN, NaN, NaN, NaN], [NaN, NaN, NaN, NaN],
         [NaN, NaN, NaN, NaN], [NaN, NaN, NaN, NaN]]) \<and>
   \<not> symmetric_matrix [[NaN, NaN, NaN, NaN], [NaN, NaN, NaN, NaN],
                       [NaN, NaN, NaN, NaN], [NaN, NaN, NaN, NaN]] \<and>
   np_mean (concat [[NaN, NaN, NaN, NaN], [NaN, NaN, NaN, NaN],
                    [NaN, NaN, NaN, NaN], [NaN, NaN, NaN, NaN]]) = NaN"
proof (intro conjI)
  show "\<not> symmetric_matrix [[NaN, NaN, NaN, NaN], [NaN, NaN, NaN, NaN],
                       [NaN, NaN, NaN, NaN], [NaN, NaN, NaN, NaN]]"
  proof
    assume "symmetric_matrix [[NaN, NaN, NaN, NaN], [NaN, NaN, NaN, NaN],
                       [NaN, NaN, NaN, NaN], [NaN, NaN, NaN, NaN]]"
    then have "np_eq NaN NaN"
      unfolding symmetric_matrix_def by (auto dest!: spec[of _ 0])
    then show False by (simp add: np_eq_def np_ne_def)
  qed
qed code_simp+

text \<open>The amended C3 on three cells on a line, two neighbours each.\<close>

theorem cost_matrices_symmetric_centred_witness:
  "setup_for_OT_reconstruction kneighbors_graph
     [[Fin 0], [Fin 1], [Fin 3]] [[Fin 0, Fin 0], [Fin 0, Fin 1], [Fin 0, Fin 3]] 2 2 =
   Inr ([[Fin (- (4 / 9)), Fin (1 / 18), Fin (5 / 9)],
         [Fin (1 / 18), Fin (- (4 / 9)), Fin (1 / 18)],
         [Fin (5 / 9), Fin (1 / 18), Fin (- (4 / 9))]],
        [[Fin (- (4 / 9)), Fin (1 / 18), Fin (5 / 9)],
         [Fin (1 / 18), Fin (- (4 / 9)), Fin (1 / 18)],
         [Fin (5 / 9), Fin (1 / 18), Fin (- (4 / 9))]]) \<and>
   symmetric_matrix [[Fin (- (4 / 9)), Fin (1 / 18), Fin (5 / 9)],
                     [Fin (1 / 18), Fin (- (4 / 9)), Fin (1 / 18)],
                     [Fin (5 / 9), Fin (1 / 18), Fin (- (4 / 9))]] \<and>
   np_mean (concat [[Fin (- (4 / 9)), Fin (1 / 18), Fin (5 / 9)],
                    [Fin (1 / 18), Fin (- (4 / 9)), Fin (1 / 18)],
                    [Fin (5 / 9), Fin (1 / 18), Fin (- (4 / 9))]]) = Fin 0"
proof -
  let ?C = "[[Fin (- (4 / 9)), Fin (1 / 18), Fin (5 / 9)],
             [Fin (1 / 18), Fin (- (4 / 9)), Fin (1 / 18)],
             [Fin (5 / 9), Fin (1 / 18), Fin (- (4 / 9))]]"
  let ?sp = "[[Fin 0, Fin 1, Fin 2], [Fin 1, Fin 0, Fin 1], [Fin 2, Fin 1, Fin 0]]"
  have r: "setup_for_OT_reconstruction kneighbors_graph
     [[Fin 0], [Fin 1], [Fin 3]] [[Fin 0, Fin 0], [Fin 0, Fin 1], [Fin 0, Fin 3]] 2 2 =
     Inr (?C, ?C)"
    by code_simp
  have e: "shortest_paths kneighbors_graph [[Fin 0], [Fin 1], [Fin 3]] 2 = Inr ?sp"
    by code_simp
  have p: "has_positive_distance ?sp"
    by code_simp
  from cost_matrices_symmetric_centred[OF r] e p
  have "symmetric_matrix ?C \<and> np_mean (concat ?C) = Fin 0" by auto
  with r show ?thesis by simp
qed

text \<open>
  C10 (as amended). Whenever the function returns and the expression graph joins two
  distinct nodes (the expression shortest-path matrix has a positive finite entry), every
  entry of \<open>cost_expression\<close> is finite, whether the graph is connected or not.
\<close>

theorem expression_cost_finite:
  assumes "setup_for_OT_reconstruction kneighbors dge locations
             num_neighbors_source num_neighbors_target = Inr (cost_expression, cost_locations)"
    and "shortest_paths kneighbors dge num_neighbors_source = Inr sp_expression"
    and "has_positive_distance sp_expression"
  shows "list_all isfinite (concat cost_expression)"
proof -
  from setup_stages[OF assms(1)] assms(2) obtain spe' where
    st: "threshold_shortest_paths sp_expression = Inr spe'"
        "normalized_cost spe' = Inr cost_expression"
    by auto
  have dm: "distance_matrix (length sp_expression) sp_expression"
    using shortest_paths_distance_matrix[OF assms(2)] .
  from expression_cost[OF dm st assms(3)] obtain m \<mu> where
    m: "0 < m"
       "cost_expression =
          map (map (\<lambda>x. np_sub (np_div (if x = PInf then Fin m else x) (Fin m)) (Fin \<mu>)))
            sp_expression"
    by blast
  have "concat cost_expression =
          map (\<lambda>x. np_sub (np_div (if x = PInf then Fin m else x) (Fin m)) (Fin \<mu>))
            (concat sp_expression)"
    unfolding m(2) by (rule concat_map_map)
  then show ?thesis
    using distance_matrix_entries[OF dm] finite_cost_entry[OF _ m(1)]
    by (simp add: list_all_iff del: set_concat)
qed

text \<open>
  C10 as stated fails on two cells with one neighbour each: every cell is its own only
  neighbour, the clipped matrix is all zero, and \<open>cost_expression\<close> is \<open>0 / 0\<close> everywhere.
\<close>

theorem expression_cost_finite_counterexample:
  "setup_for_OT_reconstruction kneighbors_graph [[Fin 0], [Fin 1]]
     [[Fin 0, Fin 0], [Fin 1, Fin 0]] 1 1 =
     Inr ([[NaN, NaN], [NaN, NaN]], [[NaN, NaN], [NaN, NaN]]) \<and>
   \<not> list_all isfinite (concat [[NaN, NaN], [NaN, NaN]])"
  by code_simp

text \<open>The amended C10 on a disconnected expression graph.\<close>

theorem expression_cost_finite_witness:
  "setup_for_OT_reconstruction kneighbors_graph
     [[Fin 0], [Fin 1], [Fin 10], [Fin 12]]
     [[Fin 0, Fin 0], [Fin 0, Fin 1], [Fin 0, Fin 3], [Fin 0, Fin 7]] 2 2 =
   Inr ([[Fin (- (3 / 4)), Fin (1 / 4), Fin (1 / 4), Fin (1 / 4)],
         [Fin (1 / 4), Fin (- (3 / 4)), Fin (1 / 4), Fin (1 / 4)],
         [Fin (1 / 4), Fin (1 / 4), Fin (- (3 / 4)), Fin (1 / 4)],
         [Fin (1 / 4), Fin (1 / 4), Fin (1 / 4), Fin (- (3 / 4))]],
        [[Fin (- (5 / 12)), Fin (- (1 / 12)), Fin (1 / 4), Fin (7 / 12)],
         [Fin (- (1 / 12)), Fin (- (5 / 12)), Fin (- (1 / 12)), Fin (1 / 4)],
         [Fin (1 / 4), Fin (- (1 / 12)), Fin (- (5 / 12)), Fin (- (1 / 12))],
         [Fin (7 / 12), Fin (1 / 4), Fin (- (1 / 12)), Fin (- (5 / 12))]]) \<and>
   shortest_paths kneighbors_graph [[Fin 0], [Fin 1], [Fin 10], [Fin 12]] 2 =
     Inr [[Fin 0, Fin 1, PInf, PInf], [Fin 1, Fin 0, PInf, PInf],
          [PInf, PInf, Fin 0, Fin 1], [PInf, PInf, Fin 1, Fin 0]] \<and>
   list_all isfinite (concat
       [[Fin (- (3 / 4)), Fin (1 / 4), Fin (1 / 4), Fin (1 / 4)],
         [Fin (1 / 4), Fin (- (3 / 4)), Fin (1 / 4), Fin (1 / 4)],
         [Fin (1 / 4), Fin (1 / 4), Fin (- (3 / 4)), Fin (1 / 4)],
         [Fin (1 / 4), Fin (1 / 4), Fin (1 / 4), Fin (- (3 / 4))]])"
proof -
  let ?sp = "[[Fin 0, Fin 1, PInf, PInf], [Fin 1, Fin 0, PInf, PInf],
          [PInf, PInf, Fin 0, Fin 1], [PInf, PInf, Fin 1, Fin 0]]"
  have r: "setup_for_OT_reconstruction kneighbors_graph
     [[Fin 0], [Fin 1], [Fin 10], [Fin 12]]
     [[Fin 0, Fin 0], [Fin 0, Fin 1], [Fin 0, Fin 3], [Fin 0, Fin 7]] 2 2 =
   Inr ([[Fin (- (3 / 4)), Fin (1 / 4), Fin (1 / 4), Fin (1 / 4)],
         [Fin (1 / 4), Fin (- (3 / 4)), Fin (1 / 4), Fin (1 / 4)],
         [Fin (1 / 4), Fin (1 / 4), Fin (- (3 / 4)), Fin (1 / 4)],
         [Fin (1 / 4), Fin (1 / 4), Fin (1 / 4), Fin (- (3 / 4))]],
        [[Fin (- (5 / 12)), Fin (- (1 / 12)), Fin (1 / 4), Fin (7 / 12)],
         [Fin (- (1 / 12)), Fin (- (5 / 12)), Fin (- (1 / 12)), Fin (1 / 4)],
         [Fin (1 / 4), Fin (- (1 / 12)), Fin (- (5 / 12)), Fin (- (1 / 12))],
         [Fin (7 / 12), Fin (1 / 4), Fin (- (1 / 12)), Fin (- (5 / 12))]])"
    by code_simp
  have e: "shortest_paths kneighbors_graph [[Fin 0], [Fin 1], [Fin 10], [Fin 12]] 2 = Inr ?sp"
    by code_simp
  have p: "has_positive_distance ?sp"
    by code_simp
  from expression_cost_finite[OF r e p] r e show ?thesis by simp
qed

section \<open>Properties of the gene selection\<close>

lemma sequence_err_map_Inr: "sequence_err (map Inr ys) = Inr ys"
  by (induction ys) simp_all

lemma sequence_err_InrD: "sequence_err rs = Inr ys \<Longrightarrow> rs = map Inr ys"
  by (induction rs arbitrary: ys) (auto split: sum.splits)

lemma sequence_err_map:
  assumes "sequence_err (map f xs) = Inr ys"
  shows "length ys = length xs" and "\<And>i. i < length xs \<Longrightarrow> f (xs ! i) = Inr (ys ! i)"
proof -
  from assms have eq: "map f xs = map Inr ys" by (rule sequence_err_InrD)
  then show len: "length ys = length xs" by (metis length_map)
  fix i assume "i < length xs"
  then show "f (xs ! i) = Inr (ys ! i)"
    using len nth_map[of i xs f] nth_map[of i ys Inr] eq by simp
qed

lemma filter_by_index:
  "map (nth ys) (filter (\<lambda>k. P (ys ! k)) [0..<length ys]) = filter P ys"
proof (induction ys rule: rev_induct)
  case Nil
  then show ?case by simp
next
  case (snoc y ys)
  have "map (nth (ys @ [y])) (filter (\<lambda>k. P ((ys @ [y]) ! k)) [0..<length ys]) =
        map (nth ys) (filter (\<lambda>k. P (ys ! k)) [0..<length ys])"
    by (intro map_cong filter_cong refl) (auto simp: nth_append)
  then show ?case using snoc by simp
qed

lemma boolean_index_nth:
  assumes "length xs = length keep"
  shows "boolean_index xs keep = map (nth xs) (filter (nth keep) [0..<length keep])"
proof -
  let ?z = "zip xs keep"
  have len: "length ?z = length keep" using assms by simp
  have a: "filter snd ?z = map (nth ?z) (filter (\<lambda>k. snd (?z ! k)) [0..<length keep])"
    using filter_by_index[of ?z snd] by (simp only: len)
  have b: "filter (\<lambda>k. snd (?z ! k)) [0..<length keep] = filter (nth keep) [0..<length keep]"
  proof (rule filter_cong[OF refl])
    fix k assume "k \<in> set [0..<length keep]"
    then have "k < length keep" by simp
    then show "snd (?z ! k) = keep ! k" using assms by simp
  qed
  have c: "map fst (map (nth ?z) (filter (nth keep) [0..<length keep])) =
           map (nth xs) (filter (nth keep) [0..<length keep])"
    unfolding map_map
  proof (rule map_cong[OF refl])
    fix k assume "k \<in> set (filter (nth keep) [0..<length keep])"
    then have "k < length keep" by simp
    then show "(fst \<circ> nth ?z) k = xs ! k" using assms by simp
  qed
  show ?thesis
    unfolding boolean_index_def a b c ..
qed

lemma two_stage_selection:
  assumes lp: "length ps = length keep" and ln: "length names = length keep"
  shows "map (\<lambda>k. boolean_index names keep ! k)
           (filter (\<lambda>k. Q (boolean_index ps keep ! k)) [0..<length (boolean_index ps keep)]) =
         map (nth names) (filter (\<lambda>g. keep ! g \<and> Q (ps ! g)) [0..<length keep])"
proof -
  define pos where "pos = filter (nth keep) [0..<length keep]"
  have P: "boolean_index ps keep = map (nth ps) pos"
    unfolding pos_def by (rule boolean_index_nth[OF lp])
  have N: "boolean_index names keep = map (nth names) pos"
    unfolding pos_def by (rule boolean_index_nth[OF ln])
  have f: "filter (\<lambda>k. Q (map (nth ps) pos ! k)) [0..<length pos] =
           filter (\<lambda>k. Q (ps ! (pos ! k))) [0..<length pos]"
  proof (rule filter_cong[OF refl])
    fix k assume "k \<in> set [0..<length pos]"
    then have "k < length pos" by simp
    then show "Q (map (nth ps) pos ! k) = Q (ps ! (pos ! k))" by simp
  qed
  have m: "map (\<lambda>k. map (nth names) pos ! k) (filter (\<lambda>k. Q (ps ! (pos ! k))) [0..<length pos]) =
           map (nth names) (map (nth pos) (filter (\<lambda>k. Q (ps ! (pos ! k))) [0..<length pos]))"
    unfolding map_map
  proof (rule map_cong[OF refl])
    fix k assume "k \<in> set (filter (\<lambda>k. Q (ps ! (pos ! k))) [0..<length pos])"
    then have "k < length pos" by simp
    then show "map (nth names) pos ! k = (nth names \<circ> nth pos) k" by simp
  qed
  have g: "map (nth pos) (filter (\<lambda>k. Q (ps ! (pos ! k))) [0..<length pos]) =
           filter (\<lambda>g. Q (ps ! g)) pos"
    by (rule filter_by_index[of pos "\<lambda>g. Q (ps ! g)"])
  have h: "filter (\<lambda>g. Q (ps ! g)) pos = filter (\<lambda>g. keep ! g \<and> Q (ps ! g)) [0..<length keep]"
    unfolding pos_def filter_filter ..
  show ?thesis
    unfolding P N length_map f m g h ..
qed

lemma two_stage_empty:
  assumes lp: "length ps = length keep"
  shows "filter (\<lambda>k. Q (boolean_index ps keep ! k)) [0..<length (boolean_index ps keep)] = [] \<longleftrightarrow>
         filter (\<lambda>g. keep ! g \<and> Q (ps ! g)) [0..<length keep] = []"
proof -
  have "map (\<lambda>k. boolean_index ps keep ! k)
           (filter (\<lambda>k. Q (boolean_index ps keep ! k)) [0..<length (boolean_index ps keep)]) =
         map (nth ps) (filter (\<lambda>g. keep ! g \<and> Q (ps ! g)) [0..<length keep])"
    by (rule two_stage_selection[OF lp lp])
  then have "length (filter (\<lambda>k. Q (boolean_index ps keep ! k)) [0..<length (boolean_index ps keep)])
           = length (filter (\<lambda>g. keep ! g \<and> Q (ps ! g)) [0..<length keep])"
    using length_map by metis
  then show ?thesis by (simp only: length_0_conv[symmetric])
qed

lemma get_genes_result:
  assumes res: "get_genes_from_spatial_archetype pearson sdge gene_names archetypes archetype
                  pval_threshold = Inr (out, res)"
  shows "\<exists>rp. length rp = length sdge \<and>
           (\<forall>g<length sdge. \<exists>row. np_index archetypes archetype = Inr row \<and>
                                   pearson (sdge ! g) row = Inr (rp ! g)) \<and>
           (if filter (\<lambda>g. np_gt (fst (rp ! g)) (Fin 0) \<and> np_le (snd (rp ! g)) pval_threshold)
                 [0..<length sdge] = []
            then out = [no_genes_message] \<and> res = None
            else out = [] \<and> length gene_names = length sdge \<and>
                 res = Some (map (nth gene_names)
                   (filter (\<lambda>g. np_gt (fst (rp ! g)) (Fin 0) \<and> np_le (snd (rp ! g)) pval_threshold)
                      [0..<length sdge])))"
proof -
  let ?f = "\<lambda>g. case np_index archetypes archetype of
                   Inl e \<Rightarrow> Inl e
                 | Inr row \<Rightarrow> pearson (sdge ! g) row"
  from res obtain rp where rp: "sequence_err (map ?f [0..<length sdge]) = Inr rp"
    unfolding get_genes_from_spatial_archetype_def by (auto split: sum.splits)
  have len: "length rp = length sdge"
    using sequence_err_map(1)[OF rp] by simp
  have each: "\<exists>row. np_index archetypes archetype = Inr row \<and> pearson (sdge ! g) row = Inr (rp ! g)"
    if "g < length sdge" for g
  proof -
    have "?f ([0..<length sdge] ! g) = Inr (rp ! g)"
      by (rule sequence_err_map(2)[OF rp]) (use that in simp)
    moreover have "[0..<length sdge] ! g = g" using that by simp
    ultimately have "?f g = Inr (rp ! g)" by (simp only:)
    then show ?thesis by (cases "np_index archetypes archetype") simp_all
  qed
  define keep where "keep = map (\<lambda>r. np_gt r (Fin 0)) (map fst rp)"
  define ps where "ps = map snd rp"
  define Q where "Q = (\<lambda>p. np_le p pval_threshold)"
  define sel where "sel = filter (\<lambda>g. np_gt (fst (rp ! g)) (Fin 0) \<and> np_le (snd (rp ! g)) pval_threshold)
                 [0..<length sdge]"
  have lk: "length keep = length sdge" and lp: "length ps = length keep"
    by (simp_all add: keep_def ps_def len)
  have sel: "filter (\<lambda>g. keep ! g \<and> Q (ps ! g)) [0..<length keep] = sel"
    unfolding sel_def lk
  proof (rule filter_cong[OF refl])
    fix g assume "g \<in> set [0..<length sdge]"
    then have "g < length rp" using len by simp
    then show "(keep ! g \<and> Q (ps ! g)) =
               (np_gt (fst (rp ! g)) (Fin 0) \<and> np_le (snd (rp ! g)) pval_threshold)"
      by (simp add: keep_def ps_def Q_def)
  qed
  let ?indices = "filter (\<lambda>k. Q (boolean_index ps keep ! k)) [0..<length (boolean_index ps keep)]"
  have body: "Inr (out, res) =
      (if length ?indices = 0 then Inr ([no_genes_message], None)
       else if length gene_names \<noteq> length keep then Inl IndexError
       else Inr ([], Some (map (\<lambda>k. boolean_index gene_names keep ! k) ?indices)))"
    using res unfolding get_genes_from_spatial_archetype_def rp keep_def ps_def Q_def
    by (simp add: Let_def)
  have empty: "?indices = [] \<longleftrightarrow> sel = []"
    using two_stage_empty[OF lp, of Q] sel by simp
  have final: "(if sel = [] then out = [no_genes_message] \<and> res = None
            else out = [] \<and> length gene_names = length sdge \<and>
                 res = Some (map (nth gene_names) sel))"
  proof (cases "sel = []")
    case True
    then show ?thesis using body empty by simp
  next
    case False
    then have ne: "length ?indices \<noteq> 0" using empty by simp
    with body have ln: "length gene_names = length keep"
      by (cases "length gene_names = length keep") simp_all
    from body ne ln have "out = []"
      "res = Some (map (\<lambda>k. boolean_index gene_names keep ! k) ?indices)"
      by simp_all
    then show ?thesis
      using False ln lk two_stage_selection[OF lp ln, of Q] sel by simp
  qed
  show ?thesis
    using len each final unfolding sel_def by blast
qed

lemma sqrt_four_ninths: "sqrt (4 / 9) = 2 / 3"
  by (rule real_sqrt_unique) (simp_all add: power2_eq_square)

lemmas pearsonr_eval =
  pearsonr_def np_mean_def np_sum_def sum_of_squares_def np_sub_def py_min_def py_max_def
  np_gt_def Let_def

lemma foldl_maximum_NaN: "foldl np_maximum NaN xs = NaN"
  by (induction xs) (simp_all add: np_maximum_def)

lemma maximum_step_greater: "mp \<noteq> NaN \<Longrightarrow> \<not> np_le x mp \<Longrightarrow> np_maximum mp x = x"
  by (cases mp; cases x) (simp_all add: np_maximum_def)

lemma maximum_step_le: "np_le x mp \<Longrightarrow> np_maximum mp x = mp"
  by (cases mp; cases x) (simp_all add: np_maximum_def)

lemma np_le_trans_greater: "np_le y mp \<Longrightarrow> \<not> np_le x mp \<Longrightarrow> x \<noteq> NaN \<Longrightarrow> np_le y x"
  by (cases mp; cases x; cases y) simp_all

lemma np_le_refl: "x \<noteq> NaN \<Longrightarrow> np_le x x"
  by (cases x) simp_all

lemma argmax_scan_first_maximum:
  assumes "idx < length pre" "pre ! idx = mp" "\<forall>j<idx. pre ! j \<noteq> mp"
    and "mp \<noteq> NaN \<longrightarrow> (\<forall>y \<in> set pre. np_le y mp)"
  shows "argmax_scan mp idx (length pre) xs < length (pre @ xs) \<and>
         (pre @ xs) ! argmax_scan mp idx (length pre) xs = foldl np_maximum mp xs \<and>
         (\<forall>j<argmax_scan mp idx (length pre) xs. (pre @ xs) ! j \<noteq> foldl np_maximum mp xs)"
  using assms
proof (induction xs arbitrary: pre mp idx)
  case Nil
  then show ?case by simp
next
  case (Cons x xs)
  show ?case
  proof (cases "mp = NaN")
    case True
    have "np_maximum NaN x = NaN" by (simp add: np_maximum_def)
    then show ?thesis
      using Cons.prems True by (simp add: foldl_maximum_NaN nth_append)
  next
    case mp: False
    then have le: "\<forall>y \<in> set pre. np_le y mp" using Cons.prems(4) by simp
    show ?thesis
    proof (cases "np_le x mp")
      case True
      have "argmax_scan mp idx (length (pre @ [x])) xs < length ((pre @ [x]) @ xs) \<and>
         ((pre @ [x]) @ xs) ! argmax_scan mp idx (length (pre @ [x])) xs = foldl np_maximum mp xs \<and>
         (\<forall>j<argmax_scan mp idx (length (pre @ [x])) xs. ((pre @ [x]) @ xs) ! j \<noteq> foldl np_maximum mp xs)"
      proof (rule Cons.IH)
        show "idx < length (pre @ [x])" using Cons.prems(1) by simp
        show "(pre @ [x]) ! idx = mp" using Cons.prems(1,2) by (simp add: nth_append)
        show "\<forall>j<idx. (pre @ [x]) ! j \<noteq> mp" using Cons.prems(1,3) by (simp add: nth_append)
        show "mp \<noteq> NaN \<longrightarrow> (\<forall>y \<in> set (pre @ [x]). np_le y mp)" using le True by simp
      qed
      then show ?thesis using True mp by (simp add: maximum_step_le)
    next
      case False
      have "argmax_scan x (length pre) (length (pre @ [x])) xs < length ((pre @ [x]) @ xs) \<and>
         ((pre @ [x]) @ xs) ! argmax_scan x (length pre) (length (pre @ [x])) xs = foldl np_maximum x xs \<and>
         (\<forall>j<argmax_scan x (length pre) (length (pre @ [x])) xs. ((pre @ [x]) @ xs) ! j \<noteq> foldl np_maximum x xs)"
      proof (rule Cons.IH)
        show "length pre < length (pre @ [x])" by simp
        show "(pre @ [x]) ! length pre = x" by simp
        show "\<forall>j<length pre. (pre @ [x]) ! j \<noteq> x"
        proof (intro allI impI)
          fix j assume j: "j < length pre"
          then have "np_le (pre ! j) mp" using le by simp
          with False have "pre ! j \<noteq> x" by auto
          then show "(pre @ [x]) ! j \<noteq> x" using j by (simp add: nth_append)
        qed
        show "x \<noteq> NaN \<longrightarrow> (\<forall>y \<in> set (pre @ [x]). np_le y x)"
          using le False by (auto intro: np_le_trans_greater np_le_refl)
      qed
      then show ?thesis using False mp by (simp add: maximum_step_greater)
    qed
  qed
qed

lemma np_argmax_first_maximum:
  assumes "np_max xs = Inr best" "np_argmax xs = Inr k"
  shows "k < length xs \<and> xs ! k = best \<and> (\<forall>j<k. xs ! j \<noteq> best)"
proof -
  from assms obtain x r where xs: "xs = x # r" "best = foldl np_maximum x r"
    "k = argmax_scan x 0 1 r"
    by (cases xs) (simp_all add: np_max_def np_argmax_def)
  have "argmax_scan x 0 (length [x]) r < length ([x] @ r) \<and>
         ([x] @ r) ! argmax_scan x 0 (length [x]) r = foldl np_maximum x r \<and>
         (\<forall>j<argmax_scan x 0 (length [x]) r. ([x] @ r) ! j \<noteq> foldl np_maximum x r)"
    by (rule argmax_scan_first_maximum) (simp_all add: np_le_refl)
  then show ?thesis using xs by simp
qed

subsection \<open>The greatest coefficient\<close>

lemma np_le_total: "x \<noteq> NaN \<Longrightarrow> y \<noteq> NaN \<Longrightarrow> np_le x y \<or> np_le y x"
  by (cases x; cases y) auto

lemma np_le_trans: "np_le x y \<Longrightarrow> np_le y z \<Longrightarrow> np_le x z"
  by (cases x; cases y; cases z) simp_all

lemma np_le_neq_lt: "np_le x y \<Longrightarrow> x \<noteq> y \<Longrightarrow> np_lt x y"
  by (cases x; cases y) simp_all

lemma np_le_not_NaN: "np_le x y \<Longrightarrow> x \<noteq> NaN \<and> y \<noteq> NaN"
  by (cases x; cases y) simp_all

lemma foldl_maximum_greatest:
  "NaN \<notin> set (x # xs) \<Longrightarrow>
     foldl np_maximum x xs \<in> set (x # xs) \<and> (\<forall>y \<in> set (x # xs). np_le y (foldl np_maximum x xs))"
proof (induction xs arbitrary: x)
  case Nil
  then show ?case by (simp add: np_le_refl)
next
  case (Cons z zs)
  then have nn: "x \<noteq> NaN" "z \<noteq> NaN" "NaN \<notin> set zs" by auto
  have m: "np_maximum x z = (if np_lt x z then z else x)"
    using nn by (simp add: np_maximum_def)
  have mx: "np_le x (np_maximum x z)" "np_le z (np_maximum x z)"
    using nn by (cases x; cases z; simp add: np_maximum_def)+
  have "NaN \<notin> set (np_maximum x z # zs)" using nn m by auto
  from Cons.IH[OF this] have
    ih: "foldl np_maximum (np_maximum x z) zs \<in> set (np_maximum x z # zs)"
        "\<forall>y \<in> set (np_maximum x z # zs). np_le y (foldl np_maximum (np_maximum x z) zs)"
    by simp_all
  have "foldl np_maximum (np_maximum x z) zs \<in> set (x # z # zs)"
    using ih(1) m by (auto split: if_splits)
  moreover have "np_le y (foldl np_maximum (np_maximum x z) zs)" if "y \<in> set (x # z # zs)" for y
  proof -
    have top: "np_le (np_maximum x z) (foldl np_maximum (np_maximum x z) zs)"
      using ih(2) by simp
    from that consider "y = x" | "y = z" | "y \<in> set zs" by auto
    then show ?thesis
    proof cases
      case 1
      then show ?thesis using np_le_trans[OF mx(1) top] by simp
    next
      case 2
      then show ?thesis using np_le_trans[OF mx(2) top] by simp
    next
      case 3
      then show ?thesis using ih(2) by simp
    qed
  qed
  ultimately show ?case by simp
qed

lemma foldl_maximum_has_NaN: "NaN \<in> set (x # xs) \<Longrightarrow> foldl np_maximum x xs = NaN"
proof (induction xs arbitrary: x)
  case Nil
  then show ?case by simp
next
  case (Cons z zs)
  show ?case
  proof (cases "x = NaN \<or> z = NaN")
    case True
    then have "np_maximum x z = NaN" by (auto simp: np_maximum_def)
    then show ?thesis by (simp add: foldl_maximum_NaN)
  next
    case False
    with Cons.prems have "NaN \<in> set zs" by auto
    then have "NaN \<in> set (np_maximum x z # zs)" by simp
    from Cons.IH[OF this] show ?thesis by simp
  qed
qed

lemma np_max_greatest:
  assumes "np_max xs = Inr best" "NaN \<notin> set xs"
  shows "best \<in> set xs \<and> (\<forall>y \<in> set xs. np_le y best)"
proof -
  from assms(1) obtain x r where xs: "xs = x # r" "best = foldl np_maximum x r"
    by (cases xs) (simp_all add: np_max_def)
  from foldl_maximum_greatest[of x r] assms(2) show ?thesis unfolding xs by simp
qed

lemma np_max_has_NaN:
  assumes "np_max xs = Inr best" "NaN \<in> set xs"
  shows "best = NaN"
proof -
  from assms(1) obtain x r where xs: "xs = x # r" "best = foldl np_maximum x r"
    by (cases xs) (simp_all add: np_max_def)
  from foldl_maximum_has_NaN[of x r] assms(2) show ?thesis unfolding xs by simp
qed

lemma np_argmax_total: "xs \<noteq> [] \<Longrightarrow> \<exists>k. np_argmax xs = Inr k"
  by (cases xs) (simp_all add: np_argmax_def)

section \<open>Claims about the gene selection\<close>

text \<open>
  C5. Whenever \<open>get_genes_from_spatial_archetype\<close> returns, every gene \<open>g\<close> has been
  correlated with the selected archetype row, giving the pair \<open>rp ! g\<close> of coefficient
  and p-value. When no gene has a coefficient above 0 and a p-value at most
  \<open>pval_threshold\<close>, the function prints the no-significant-genes message and returns
  \<open>None\<close> (a value, not an error); otherwise it prints nothing and returns exactly the
  names of the genes with a coefficient above 0 and a p-value at most \<open>pval_threshold\<close>.
\<close>

theorem selected_genes_positive_and_significant:
  assumes "get_genes_from_spatial_archetype pearson sdge gene_names archetypes archetype
             pval_threshold = Inr (out, res)"
  shows "\<exists>rp. length rp = length sdge \<and>
           (\<forall>g<length sdge. \<exists>row. np_index archetypes archetype = Inr row \<and>
                                   pearson (sdge ! g) row = Inr (rp ! g)) \<and>
           (if filter (\<lambda>g. np_gt (fst (rp ! g)) (Fin 0) \<and> np_le (snd (rp ! g)) pval_threshold)
                 [0..<length sdge] = []
            then out = [no_genes_message] \<and> res = None
            else out = [] \<and> length gene_names = length sdge \<and>
                 res = Some (map (nth gene_names)
                   (filter (\<lambda>g. np_gt (fst (rp ! g)) (Fin 0) \<and> np_le (snd (rp ! g)) pval_threshold)
                      [0..<length sdge])))"
  using assms by (rule get_genes_result)

text \<open>
  C5 on four genes and the archetype \<open>[1, 0, 0]\<close>: the coefficients are 1, 1/2, -1 and
  1, the p-values 0, 2/3, 0 and 0, and the threshold 0 keeps the first and the last gene.
\<close>

theorem selected_genes_positive_and_significant_witness:
  "get_genes_from_spatial_archetype (pearsonr (\<lambda>r n. Fin (2 / 3)))
     [[Fin 1, Fin 0, Fin 0], [Fin 1, Fin 1, Fin 0], [Fin 0, Fin 1, Fin 1], [Fin 3, Fin 2, Fin 2]]
     [''g0'', ''g1'', ''g2'', ''g3''] [[Fin 1, Fin 0, Fin 0]] 0 (Fin 0)
     = Inr ([], Some [''g0'', ''g3'']) \<and>
   (\<exists>rp. length rp = length [[Fin 1, Fin 0, Fin 0], [Fin 1, Fin 1, Fin 0], [Fin 0, Fin 1, Fin 1], [Fin 3, Fin 2, Fin 2]] \<and>
      (\<forall>g<length [[Fin 1, Fin 0, Fin 0], [Fin 1, Fin 1, Fin 0], [Fin 0, Fin 1, Fin 1], [Fin 3, Fin 2, Fin 2]].
          \<exists>row. np_index [[Fin 1, Fin 0, Fin 0]] 0 = Inr row \<and>
                pearsonr (\<lambda>r n. Fin (2 / 3)) ([[Fin 1, Fin 0, Fin 0], [Fin 1, Fin 1, Fin 0], [Fin 0, Fin 1, Fin 1], [Fin 3, Fin 2, Fin 2]] ! g) row = Inr (rp ! g)) \<and>
      (if filter (\<lambda>g. np_gt (fst (rp ! g)) (Fin 0) \<and> np_le (snd (rp ! g)) (Fin 0))
            [0..<length [[Fin 1, Fin 0, Fin 0], [Fin 1, Fin 1, Fin 0], [Fin 0, Fin 1, Fin 1], [Fin 3, Fin 2, Fin 2]]] = []
       then ([]::string list) = [no_genes_message] \<and> Some [''g0'', ''g3''] = None
       else ([]::string list) = [] \<and> length [''g0'', ''g1'', ''g2'', ''g3''] = length [[Fin 1, Fin 0, Fin 0], [Fin 1, Fin 1, Fin 0], [Fin 0, Fin 1, Fin 1], [Fin 3, Fin 2, Fin 2]] \<and>
            Some [''g0'', ''g3''] = Some (map (nth [''g0'', ''g1'', ''g2'', ''g3''])
              (filter (\<lambda>g. np_gt (fst (rp ! g)) (Fin 0) \<and> np_le (snd (rp ! g)) (Fin 0))
                 [0..<length [[Fin 1, Fin 0, Fin 0], [Fin 1, Fin 1, Fin 0], [Fin 0, Fin 1, Fin 1], [Fin 3, Fin 2, Fin 2]]]))))"
proof -
  have p: "pearsonr (\<lambda>r n. Fin (2 / 3)) [Fin 1, Fin 0, Fin 0] [Fin 1, Fin 0, Fin 0]
             = Inr (Fin 1, Fin 0)"
    "pearsonr (\<lambda>r n. Fin (2 / 3)) [Fin 1, Fin 1, Fin 0] [Fin 1, Fin 0, Fin 0]
             = Inr (Fin (1 / 2), Fin (2 / 3))"
    "pearsonr (\<lambda>r n. Fin (2 / 3)) [Fin 0, Fin 1, Fin 1] [Fin 1, Fin 0, Fin 0]
             = Inr (Fin (- 1), Fin 0)"
    "pearsonr (\<lambda>r n. Fin (2 / 3)) [Fin 3, Fin 2, Fin 2] [Fin 1, Fin 0, Fin 0]
             = Inr (Fin 1, Fin 0)"
    by (simp_all add: pearsonr_eval sqrt_four_ninths)
  have r: "get_genes_from_spatial_archetype (pearsonr (\<lambda>r n. Fin (2 / 3)))
     [[Fin 1, Fin 0, Fin 0], [Fin 1, Fin 1, Fin 0], [Fin 0, Fin 1, Fin 1], [Fin 3, Fin 2, Fin 2]]
     [''g0'', ''g1'', ''g2'', ''g3''] [[Fin 1, Fin 0, Fin 0]] 0 (Fin 0)
     = Inr ([], Some [''g0'', ''g3''])"
    by (simp add: get_genes_from_spatial_archetype_def np_index_def upt_rec[of 0] upt_rec[of 1]
          upt_rec[of 2] upt_rec[of 3] p boolean_index_def np_gt_def)
  from r selected_genes_positive_and_significant[OF r] show ?thesis by (rule conjI)
qed

text \<open>
  C9. A sequence returned by \<open>get_genes_from_spatial_archetype\<close> is not empty, and it
  lists the names at strictly increasing positions of \<open>gene_names\<close>.
\<close>

theorem returned_genes_keep_order:
  assumes "get_genes_from_spatial_archetype pearson sdge gene_names archetypes archetype
             pval_threshold = Inr (out, Some genes)"
  shows "genes \<noteq> [] \<and>
         (\<exists>is. sorted_wrt (<) is \<and> (\<forall>i \<in> set is. i < length gene_names) \<and>
               genes = map (nth gene_names) is)"
proof -
  from get_genes_result[OF assms] obtain rp where
    rp: "if filter (\<lambda>g. np_gt (fst (rp ! g)) (Fin 0) \<and> np_le (snd (rp ! g)) pval_threshold)
                 [0..<length sdge] = []
            then out = [no_genes_message] \<and> Some genes = None
            else out = [] \<and> length gene_names = length sdge \<and>
                 Some genes = Some (map (nth gene_names)
                   (filter (\<lambda>g. np_gt (fst (rp ! g)) (Fin 0) \<and> np_le (snd (rp ! g)) pval_threshold)
                      [0..<length sdge]))"
    by blast
  define sel where "sel = filter (\<lambda>g. np_gt (fst (rp ! g)) (Fin 0) \<and> np_le (snd (rp ! g)) pval_threshold)
                      [0..<length sdge]"
  from rp have ne: "sel \<noteq> []" and len: "length gene_names = length sdge"
    and g: "genes = map (nth gene_names) sel"
    unfolding sel_def by (simp_all split: if_splits)
  have "sorted_wrt (<) sel" unfolding sel_def by (rule sorted_wrt_filter) simp
  moreover have "\<forall>i \<in> set sel. i < length gene_names" unfolding sel_def len by simp
  ultimately show ?thesis using ne g by auto
qed

text \<open>C9 on four genes whose names are not in alphabetical order.\<close>

theorem returned_genes_keep_order_witness:
  "get_genes_from_spatial_archetype (pearsonr (\<lambda>r n. Fin (2 / 3)))
     [[Fin 1, Fin 0, Fin 0], [Fin 0, Fin 1, Fin 1], [Fin 1, Fin 1, Fin 0], [Fin 3, Fin 2, Fin 2]]
     [''b'', ''d'', ''a'', ''c''] [[Fin 0, Fin 1, Fin 1], [Fin 1, Fin 0, Fin 0]] 1 (Fin (2 / 3))
     = Inr ([], Some [''b'', ''a'', ''c'']) \<and>
   [''b'', ''a'', ''c''] \<noteq> [] \<and>
   (\<exists>is. sorted_wrt (<) is \<and> (\<forall>i \<in> set is. i < length [''b'', ''d'', ''a'', ''c'']) \<and>
         [''b'', ''a'', ''c''] = map (nth [''b'', ''d'', ''a'', ''c'']) is)"
proof -
  have p: "pearsonr (\<lambda>r n. Fin (2 / 3)) [Fin 1, Fin 0, Fin 0] [Fin 1, Fin 0, Fin 0]
             = Inr (Fin 1, Fin 0)"
    "pearsonr (\<lambda>r n. Fin (2 / 3)) [Fin 1, Fin 1, Fin 0] [Fin 1, Fin 0, Fin 0]
             = Inr (Fin (1 / 2), Fin (2 / 3))"
    "pearsonr (\<lambda>r n. Fin (2 / 3)) [Fin 0, Fin 1, Fin 1] [Fin 1, Fin 0, Fin 0]
             = Inr (Fin (- 1), Fin 0)"
    "pearsonr (\<lambda>r n. Fin (2 / 3)) [Fin 3, Fin 2, Fin 2] [Fin 1, Fin 0, Fin 0]
             = Inr (Fin 1, Fin 0)"
    by (simp_all add: pearsonr_eval sqrt_four_ninths)
  have r: "get_genes_from_spatial_archetype (pearsonr (\<lambda>r n. Fin (2 / 3)))
     [[Fin 1, Fin 0, Fin 0], [Fin 0, Fin 1, Fin 1], [Fin 1, Fin 1, Fin 0], [Fin 3, Fin 2, Fin 2]]
     [''b'', ''d'', ''a'', ''c''] [[Fin 0, Fin 1, Fin 1], [Fin 1, Fin 0, Fin 0]] 1 (Fin (2 / 3))
     = Inr ([], Some [''b'', ''a'', ''c''])"
    by (simp add: get_genes_from_spatial_archetype_def np_index_def upt_rec[of 0] upt_rec[of 1]
          upt_rec[of 2] upt_rec[of 3] p boolean_index_def np_gt_def)
  from returned_genes_keep_order[OF r] r show ?thesis by simp
qed

text \<open>
  C6 (as amended). Whenever \<open>find_spatially_related_genes\<close> returns, the row of the query
  gene has been correlated with every archetype row, giving \<open>arch_corrs\<close>. When no
  coefficient is \<open>NaN\<close>, let \<open>k\<close> be the first index of the greatest coefficient: if that
  coefficient is below 0.7 (the float that line 98 compares with) the function prints the
  no-archetype message and returns \<open>None\<close>; otherwise it returns what
  \<open>get_genes_from_spatial_archetype\<close> returns for archetype \<open>k\<close> with the same threshold.
  When a coefficient is \<open>NaN\<close> (a constant row), \<open>np.max\<close> is \<open>NaN\<close>, which is not below
  0.7, and the function returns what \<open>get_genes_from_spatial_archetype\<close> returns for the
  first archetype whose coefficient is \<open>NaN\<close>.
\<close>

theorem related_genes_best_archetype:
  assumes "find_spatially_related_genes pearson sdge gene_names archetypes gene pval_threshold
             = Inr (out, res)"
  shows "\<exists>row arch_corrs.
           np_index sdge gene = Inr row \<and> length arch_corrs = length archetypes \<and>
           (\<forall>a<length archetypes. \<exists>p. pearson row (archetypes ! a) = Inr (arch_corrs ! a, p)) \<and>
           (if NaN \<in> set arch_corrs
            then \<exists>k<length archetypes.
                   arch_corrs ! k = NaN \<and> (\<forall>j<k. arch_corrs ! j \<noteq> NaN) \<and>
                   get_genes_from_spatial_archetype pearson sdge gene_names archetypes (int k)
                     pval_threshold = Inr (out, res)
            else \<exists>k<length archetypes.
                   (\<forall>a<length archetypes. np_le (arch_corrs ! a) (arch_corrs ! k)) \<and>
                   (\<forall>j<k. np_lt (arch_corrs ! j) (arch_corrs ! k)) \<and>
                   (if np_lt (arch_corrs ! k) (Fin match_threshold)
                    then out = [no_archetype_message] \<and> res = None
                    else get_genes_from_spatial_archetype pearson sdge gene_names archetypes
                           (int k) pval_threshold = Inr (out, res)))"
proof -
  let ?f = "\<lambda>archetype. case np_index sdge gene of
                       Inl e \<Rightarrow> Inl e
                     | Inr row \<Rightarrow>
                         (case pearson row (archetypes ! archetype) of
                            Inl e \<Rightarrow> Inl e
                          | Inr rp \<Rightarrow> Inr (fst rp))"
  from assms obtain cs where cs: "sequence_err (map ?f [0..<length archetypes]) = Inr cs"
    unfolding find_spatially_related_genes_def by (auto split: sum.splits)
  from assms cs obtain best where best: "np_max cs = Inr best"
    unfolding find_spatially_related_genes_def by (auto split: sum.splits)
  have len: "length cs = length archetypes" using sequence_err_map(1)[OF cs] by simp
  have ne: "cs \<noteq> []" using best by (auto simp: np_max_def)
  then have "0 < length archetypes" using len by auto
  have fa: "?f a = Inr (cs ! a)" if "a < length archetypes" for a
  proof -
    have "?f ([0..<length archetypes] ! a) = Inr (cs ! a)"
      by (rule sequence_err_map(2)[OF cs]) (use that in simp)
    moreover have "[0..<length archetypes] ! a = a" using that by simp
    ultimately show ?thesis by (simp only:)
  qed
  from fa[OF \<open>0 < length archetypes\<close>] obtain row where row: "np_index sdge gene = Inr row"
    by (cases "np_index sdge gene") simp_all
  have each: "\<exists>p. pearson row (archetypes ! a) = Inr (cs ! a, p)" if "a < length archetypes" for a
    using fa[OF that] unfolding row by (cases "pearson row (archetypes ! a)") auto
  have body: "Inr (out, res) =
     (if np_lt best (Fin match_threshold) then Inr ([no_archetype_message], None)
      else (case np_argmax cs of
               Inl e \<Rightarrow> Inl e
             | Inr archetype \<Rightarrow>
                 get_genes_from_spatial_archetype pearson sdge gene_names archetypes
                   (int archetype) pval_threshold))"
    using assms by (simp add: find_spatially_related_genes_def cs best)
  from np_argmax_total[OF ne] obtain k where k: "np_argmax cs = Inr k" by blast
  from np_argmax_first_maximum[OF best k] have
    kf: "k < length cs" "cs ! k = best" "\<forall>j<k. cs ! j \<noteq> best"
    by simp_all
  have final: "if NaN \<in> set cs
            then \<exists>k<length archetypes.
                   cs ! k = NaN \<and> (\<forall>j<k. cs ! j \<noteq> NaN) \<and>
                   get_genes_from_spatial_archetype pearson sdge gene_names archetypes (int k)
                     pval_threshold = Inr (out, res)
            else \<exists>k<length archetypes.
                   (\<forall>a<length archetypes. np_le (cs ! a) (cs ! k)) \<and>
                   (\<forall>j<k. np_lt (cs ! j) (cs ! k)) \<and>
                   (if np_lt (cs ! k) (Fin match_threshold)
                    then out = [no_archetype_message] \<and> res = None
                    else get_genes_from_spatial_archetype pearson sdge gene_names archetypes
                           (int k) pval_threshold = Inr (out, res))"
  proof (cases "NaN \<in> set cs")
    case True
    from np_max_has_NaN[OF best True] have b: "best = NaN" .
    then have "get_genes_from_spatial_archetype pearson sdge gene_names archetypes (int k)
                     pval_threshold = Inr (out, res)"
      using body k by simp
    then show ?thesis using True kf len b by auto
  next
    case False
    from np_max_greatest[OF best False] have g: "\<forall>y \<in> set cs. np_le y best" by simp
    have le: "np_le (cs ! a) (cs ! k)" if "a < length archetypes" for a
      using g that len kf(2) by simp
    have lt: "np_lt (cs ! j) (cs ! k)" if "j < k" for j
    proof -
      have "j < length archetypes" using that kf(1) len by simp
      from le[OF this] kf(3) that kf(2) show ?thesis by (intro np_le_neq_lt) simp_all
    qed
    have "if np_lt (cs ! k) (Fin match_threshold)
                    then out = [no_archetype_message] \<and> res = None
                    else get_genes_from_spatial_archetype pearson sdge gene_names archetypes
                           (int k) pval_threshold = Inr (out, res)"
      using body k kf(2) by (simp split: if_splits)
    then show ?thesis using False le lt kf(1) len by auto
  qed
  show ?thesis using row len each final by blast
qed

text \<open>
  C6 as stated fails where an archetype row is constant. The query gene has the
  coefficient 1 with archetype 0 and \<open>NaN\<close> with the constant archetype 1: the best
  correlation, 1, is not below 0.7 and belongs to archetype 0, for which
  \<open>get_genes_from_spatial_archetype\<close> returns the gene; the function goes to archetype 1
  and returns \<open>None\<close> with the no-genes message.
\<close>

theorem related_genes_best_archetype_counterexample:
  "pearsonr (\<lambda>r n. Fin (2 / 3)) [Fin 1, Fin 0, Fin 0] [Fin 1, Fin 0, Fin 0] = Inr (Fin 1, Fin 0) \<and>
   pearsonr (\<lambda>r n. Fin (2 / 3)) [Fin 1, Fin 0, Fin 0] [Fin 1, Fin 1, Fin 1] = Inr (NaN, NaN) \<and>
   \<not> np_lt (Fin 1) (Fin match_threshold) \<and>
   get_genes_from_spatial_archetype (pearsonr (\<lambda>r n. Fin (2 / 3))) [[Fin 1, Fin 0, Fin 0]] [''a'']
     [[Fin 1, Fin 0, Fin 0], [Fin 1, Fin 1, Fin 1]] 0 (Fin 0) = Inr ([], Some [''a'']) \<and>
   find_spatially_related_genes (pearsonr (\<lambda>r n. Fin (2 / 3))) [[Fin 1, Fin 0, Fin 0]] [''a'']
     [[Fin 1, Fin 0, Fin 0], [Fin 1, Fin 1, Fin 1]] 0 (Fin 0) = Inr ([no_genes_message], None)"
proof -
  have p: "pearsonr (\<lambda>r n. Fin (2 / 3)) [Fin 1, Fin 0, Fin 0] [Fin 1, Fin 0, Fin 0] = Inr (Fin 1, Fin 0)"
    "pearsonr (\<lambda>r n. Fin (2 / 3)) [Fin 1, Fin 0, Fin 0] [Fin 1, Fin 1, Fin 1] = Inr (NaN, NaN)"
    by (simp_all add: pearsonr_eval sqrt_four_ninths)
  show ?thesis
    by (simp add: find_spatially_related_genes_def get_genes_from_spatial_archetype_def
          np_index_def upt_rec[of 0] upt_rec[of 1] p boolean_index_def np_gt_def np_max_def
          np_maximum_def np_argmax_def match_threshold_def)
qed

text \<open>
  The amended C6 on a query gene whose coefficients with the three archetypes are -1, 1
  and 1: the tie is broken towards archetype 1, the first of the two.
\<close>

theorem related_genes_best_archetype_witness:
  "find_spatially_related_genes (pearsonr (\<lambda>r n. Fin (2 / 3)))
     [[Fin 1, Fin 0, Fin 0], [Fin 1, Fin 1, Fin 0], [Fin 0, Fin 1, Fin 1], [Fin 3, Fin 2, Fin 2]]
     [''g0'', ''g1'', ''g2'', ''g3'']
     [[Fin 0, Fin 1, Fin 1], [Fin 1, Fin 0, Fin 0], [Fin 3, Fin 2, Fin 2]] 0 (Fin 0)
     = Inr ([], Some [''g0'', ''g3'']) \<and>
   (\<exists>row arch_corrs.
      np_index [[Fin 1, Fin 0, Fin 0], [Fin 1, Fin 1, Fin 0], [Fin 0, Fin 1, Fin 1], [Fin 3, Fin 2, Fin 2]] 0 = Inr row \<and> length arch_corrs = length [[Fin 0, Fin 1, Fin 1], [Fin 1, Fin 0, Fin 0], [Fin 3, Fin 2, Fin 2]] \<and>
      (\<forall>a<length [[Fin 0, Fin 1, Fin 1], [Fin 1, Fin 0, Fin 0], [Fin 3, Fin 2, Fin 2]].
          \<exists>p. pearsonr (\<lambda>r n. Fin (2 / 3)) row ([[Fin 0, Fin 1, Fin 1], [Fin 1, Fin 0, Fin 0], [Fin 3, Fin 2, Fin 2]] ! a) = Inr (arch_corrs ! a, p)) \<and>
      (if NaN \<in> set arch_corrs
       then \<exists>k<length [[Fin 0, Fin 1, Fin 1], [Fin 1, Fin 0, Fin 0], [Fin 3, Fin 2, Fin 2]].
              arch_corrs ! k = NaN \<and> (\<forall>j<k. arch_corrs ! j \<noteq> NaN) \<and>
              get_genes_from_spatial_archetype (pearsonr (\<lambda>r n. Fin (2 / 3)))
                [[Fin 1, Fin 0, Fin 0], [Fin 1, Fin 1, Fin 0], [Fin 0, Fin 1, Fin 1], [Fin 3, Fin 2, Fin 2]]
                [''g0'', ''g1'', ''g2'', ''g3'']
                [[Fin 0, Fin 1, Fin 1], [Fin 1, Fin 0, Fin 0], [Fin 3, Fin 2, Fin 2]] (int k) (Fin 0)
              = Inr ([], Some [''g0'', ''g3''])
       else \<exists>k<length [[Fin 0, Fin 1, Fin 1], [Fin 1, Fin 0, Fin 0], [Fin 3, Fin 2, Fin 2]].
              (\<forall>a<length [[Fin 0, Fin 1, Fin 1], [Fin 1, Fin 0, Fin 0], [Fin 3, Fin 2, Fin 2]]. np_le (arch_corrs ! a) (arch_corrs ! k)) \<and>
              (\<forall>j<k. np_lt (arch_corrs ! j) (arch_corrs ! k)) \<and>
              (if np_lt (arch_corrs ! k) (Fin match_threshold)
               then ([]::string list) = [no_archetype_message] \<and> Some [''g0'', ''g3''] = None
               else get_genes_from_spatial_archetype (pearsonr (\<lambda>r n. Fin (2 / 3)))
                      [[Fin 1, Fin 0, Fin 0], [Fin 1, Fin 1, Fin 0], [Fin 0, Fin 1, Fin 1], [Fin 3, Fin 2, Fin 2]]
                      [''g0'', ''g1'', ''g2'', ''g3'']
                      [[Fin 0, Fin 1, Fin 1], [Fin 1, Fin 0, Fin 0], [Fin 3, Fin 2, Fin 2]] (int k) (Fin 0)
                    = Inr ([], Some [''g0'', ''g3'']))))"
proof -
  have p: "pearsonr (\<lambda>r n. Fin (2 / 3)) [Fin 1, Fin 0, Fin 0] [Fin 1, Fin 0, Fin 0]
             = Inr (Fin 1, Fin 0)"
    "pearsonr (\<lambda>r n. Fin (2 / 3)) [Fin 1, Fin 1, Fin 0] [Fin 1, Fin 0, Fin 0]
             = Inr (Fin (1 / 2), Fin (2 / 3))"
    "pearsonr (\<lambda>r n. Fin (2 / 3)) [Fin 0, Fin 1, Fin 1] [Fin 1, Fin 0, Fin 0]
             = Inr (Fin (- 1), Fin 0)"
    "pearsonr (\<lambda>r n. Fin (2 / 3)) [Fin 3, Fin 2, Fin 2] [Fin 1, Fin 0, Fin 0]
             = Inr (Fin 1, Fin 0)"
    "pearsonr (\<lambda>r n. Fin (2 / 3)) [Fin 1, Fin 0, Fin 0] [Fin 0, Fin 1, Fin 1]
             = Inr (Fin (- 1), Fin 0)"
    "pearsonr (\<lambda>r n. Fin (2 / 3)) [Fin 1, Fin 0, Fin 0] [Fin 3, Fin 2, Fin 2]
             = Inr (Fin 1, Fin 0)"
    by (simp_all add: pearsonr_eval sqrt_four_ninths)
  have r: "find_spatially_related_genes (pearsonr (\<lambda>r n. Fin (2 / 3)))
     [[Fin 1, Fin 0, Fin 0], [Fin 1, Fin 1, Fin 0], [Fin 0, Fin 1, Fin 1], [Fin 3, Fin 2, Fin 2]]
     [''g0'', ''g1'', ''g2'', ''g3'']
     [[Fin 0, Fin 1, Fin 1], [Fin 1, Fin 0, Fin 0], [Fin 3, Fin 2, Fin 2]] 0 (Fin 0)
     = Inr ([], Some [''g0'', ''g3''])"
    by (simp add: find_spatially_related_genes_def get_genes_from_spatial_archetype_def
          np_index_def upt_rec[of 0] upt_rec[of 1] upt_rec[of 2] upt_rec[of 3] p
          boolean_index_def np_gt_def np_max_def np_maximum_def np_argmax_def
          match_threshold_def)
  from r related_genes_best_archetype[OF r] show ?thesis by (rule conjI)
qed

section \<open>Properties of find_spatial_archetypes\<close>

lemma clamp_range:
  "py_max (py_min q (Fin 1)) (Fin (- 1)) = NaN \<or>
   (np_le (Fin (- 1)) (py_max (py_min q (Fin 1)) (Fin (- 1))) \<and>
    np_le (py_max (py_min q (Fin 1)) (Fin (- 1))) (Fin 1))"
  by (cases q) (simp_all add: py_min_def py_max_def np_gt_def)

lemma pearsonr_range:
  assumes "pearsonr pvalue x y = Inr (r, p)"
  shows "r = NaN \<or> (np_le (Fin (- 1)) r \<and> np_le r (Fin 1))"
proof -
  from assms obtain q where "r = py_max (py_min q (Fin 1)) (Fin (- 1))"
    by (auto simp: pearsonr_def Let_def split: if_splits)
  then show ?thesis using clamp_range[of q] by simp
qed

lemma pearsonr_total:
  "length x = length y \<Longrightarrow> \<exists>r p. pearsonr pvalue x y = Inr (r, p)"
  by (simp add: pearsonr_def Let_def)

lemma upto_nth: "0 \<le> i \<Longrightarrow> i < k \<Longrightarrow> [1..k] ! nat i = i + 1"
proof -
  assume "0 \<le> i" "i < k"
  then have "1 + int (nat i) \<le> k" by simp
  from nth_upto[OF this] show ?thesis using \<open>0 \<le> i\<close> by simp
qed

lemma length_upto_one: "length [1..k] = nat k"
  by simp

lemma arch_comp_members:
  assumes "length clusters = length sdge"
  shows "arch_comp sdge clusters x =
           Inr (mean_axis0 (ncols sdge)
                  (map (nth sdge) (filter (\<lambda>i. clusters ! i = x) [0..<length sdge])))"
proof -
  have "\<not> list_ex (\<lambda>i. length sdge \<le> i) (filter (\<lambda>i. clusters ! i = x) [0..<length clusters])"
    unfolding list_ex_iff assms by auto
  then show ?thesis by (simp add: arch_comp_def Let_def assms)
qed

lemma archetypes_computed:
  assumes "length clusters = length sdge"
  shows "sequence_err (map (arch_comp sdge clusters) [1..k]) = Inr (archetype_rows sdge clusters k)"
proof -
  have "map (arch_comp sdge clusters) [1..k] = map Inr (archetype_rows sdge clusters k)"
    unfolding archetype_rows_def map_map
    by (rule map_cong[OF refl]) (simp add: arch_comp_members[OF assms])
  then show ?thesis by (simp only: sequence_err_map_Inr)
qed

lemma archetype_rows_nth:
  assumes "0 \<le> i" "i < k"
  shows "archetype_rows sdge clusters k ! nat i =
           mean_axis0 (ncols sdge)
             (map (nth sdge) (filter (\<lambda>g. clusters ! g = i + 1) [0..<length sdge]))"
proof -
  have "nat i < length [1..k]" using assms by simp
  then show ?thesis
    unfolding archetype_rows_def using upto_nth[OF assms] by (simp del: length_upto)
qed

lemma np_index_nat: "g < length xs \<Longrightarrow> np_index xs (int g) = Inr (xs ! g)"
  by (simp add: np_index_def)

lemma np_index_label:
  assumes "1 \<le> c" "c \<le> k"
  shows "np_index (archetype_rows sdge clusters k) (c - 1) =
           Inr (archetype_rows sdge clusters k ! nat (c - 1))"
  using assms by (simp add: np_index_def archetype_rows_def)

lemma np_index_empty: "np_index [] i = Inl IndexError"
  by (simp add: np_index_def)

lemma sequence_err_fst:
  "sequence_err (map (\<lambda>g. case P g of Inl e \<Rightarrow> Inl e | Inr rp \<Rightarrow> Inr (fst rp)) xs) =
     (case sequence_err (map P xs) of Inl e \<Rightarrow> Inl e | Inr rps \<Rightarrow> Inr (map fst rps))"
  by (induction xs) (simp_all split: sum.splits)

lemma sequence_err_total:
  "(\<And>x. x \<in> set xs \<Longrightarrow> \<exists>v. f x = Inr v) \<Longrightarrow> \<exists>vs. sequence_err (map f xs) = Inr vs"
proof (induction xs)
  case Nil
  then show ?case by simp
next
  case (Cons x xs)
  then obtain v vs where "f x = Inr v" "sequence_err (map f xs) = Inr vs"
    by (metis list.set_intros)
  then show ?case by simp
qed

lemma find_spatial_archetypes_result:
  assumes cl: "ward_fcluster sdge k = Inr clusters"
    and len: "length clusters = length sdge"
    and ids: "\<forall>c \<in> set clusters. 1 \<le> c \<and> c \<le> k"
  shows "find_spatial_archetypes ward_fcluster pearson k sdge =
     (case sequence_err
             (map (\<lambda>g. pearson (sdge ! g) (archetype_rows sdge clusters k ! nat (clusters ! g - 1)))
                [0..<length sdge]) of
        Inl e \<Rightarrow> Inl e
      | Inr rps \<Rightarrow> Inr (archetype_rows sdge clusters k, clusters, map fst rps))"
proof -
  let ?A = "archetype_rows sdge clusters k"
  let ?P = "\<lambda>g. pearson (sdge ! g) (?A ! nat (clusters ! g - 1))"
  have eq: "map (\<lambda>gene.
                     case np_index clusters (int gene) of
                       Inl e \<Rightarrow> Inl e
                     | Inr c \<Rightarrow>
                         (case np_index ?A (c - 1) of
                            Inl e \<Rightarrow> Inl e
                          | Inr row \<Rightarrow>
                              (case pearson (sdge ! gene) row of
                                 Inl e \<Rightarrow> Inl e
                               | Inr rp \<Rightarrow> Inr (fst rp))))
                [0..<length sdge] =
        map (\<lambda>g. case ?P g of Inl e \<Rightarrow> Inl e | Inr rp \<Rightarrow> Inr (fst rp)) [0..<length sdge]"
  proof (rule map_cong[OF refl])
    fix g assume "g \<in> set [0..<length sdge]"
    then have g: "g < length clusters" using len by simp
    then have "1 \<le> clusters ! g" "clusters ! g \<le> k" using ids by simp_all
    from np_index_label[OF this] np_index_nat[OF g]
    show "(case np_index clusters (int g) of
                       Inl e \<Rightarrow> Inl e
                     | Inr c \<Rightarrow>
                         (case np_index ?A (c - 1) of
                            Inl e \<Rightarrow> Inl e
                          | Inr row \<Rightarrow>
                              (case pearson (sdge ! g) row of
                                 Inl e \<Rightarrow> Inl e
                               | Inr rp \<Rightarrow> Inr (fst rp)))) =
          (case ?P g of Inl e \<Rightarrow> Inl e | Inr rp \<Rightarrow> Inr (fst rp))"
      by simp
  qed
  have "find_spatial_archetypes ward_fcluster pearson k sdge =
     (case (case sequence_err (map ?P [0..<length sdge]) of
              Inl e \<Rightarrow> Inl e
            | Inr rps \<Rightarrow> Inr (map fst rps)) of
        Inl e \<Rightarrow> Inl e
      | Inr gene_corrs \<Rightarrow> Inr (?A, clusters, gene_corrs))"
    by (simp only: find_spatial_archetypes_def cl sum.case archetypes_computed[OF len] eq
          sequence_err_fst)
  also have "\<dots> =
     (case sequence_err (map ?P [0..<length sdge]) of
        Inl e \<Rightarrow> Inl e
      | Inr rps \<Rightarrow> Inr (?A, clusters, map fst rps))"
    by (cases "sequence_err (map ?P [0..<length sdge])") simp_all
  finally show ?thesis .
qed

lemma length_mean_axis0: "length (mean_axis0 S rows) = S"
  by (simp add: mean_axis0_def)

lemma length_archetype_row:
  "0 \<le> i \<Longrightarrow> i < k \<Longrightarrow> length (archetype_rows sdge clusters k ! nat i) = ncols sdge"
  by (simp add: archetype_rows_nth length_mean_axis0)

lemma find_spatial_archetypes_pearsonr:
  assumes cl: "ward_fcluster sdge num_clusters = Inr clusters"
    and len: "length clusters = length sdge"
    and ids: "\<forall>c \<in> set clusters. 1 \<le> c \<and> c \<le> num_clusters"
    and rect: "\<forall>row \<in> set sdge. length row = ncols sdge"
  shows "\<exists>archetypes gene_corrs.
           find_spatial_archetypes ward_fcluster (pearsonr pvalue) num_clusters sdge
             = Inr (archetypes, clusters, gene_corrs) \<and>
           length archetypes = nat num_clusters \<and>
           (\<forall>i<nat num_clusters.
              length (archetypes ! i) = ncols sdge \<and>
              (\<forall>j<ncols sdge.
                 archetypes ! i ! j =
                   np_mean (map (\<lambda>g. sdge ! g ! j)
                              (filter (\<lambda>g. clusters ! g = int i + 1) [0..<length sdge])))) \<and>
           length gene_corrs = length sdge \<and>
           (\<forall>g<length sdge.
              (gene_corrs ! g = NaN \<or>
               (np_le (Fin (- 1)) (gene_corrs ! g) \<and> np_le (gene_corrs ! g) (Fin 1))) \<and>
              (\<exists>p. pearsonr pvalue (sdge ! g) (archetypes ! nat (clusters ! g - 1))
                     = Inr (gene_corrs ! g, p)))"
proof -
  let ?A = "archetype_rows sdge clusters num_clusters"
  let ?P = "\<lambda>g. pearsonr pvalue (sdge ! g) (?A ! nat (clusters ! g - 1))"
  have lens: "length (sdge ! g) = length (?A ! nat (clusters ! g - 1))" if "g < length sdge" for g
  proof -
    have "1 \<le> clusters ! g" "clusters ! g \<le> num_clusters" using ids that len by simp_all
    then have "length (?A ! nat (clusters ! g - 1)) = ncols sdge"
      by (intro length_archetype_row) simp_all
    then show ?thesis using rect that by simp
  qed
  have "\<exists>v. ?P g = Inr v" if "g \<in> set [0..<length sdge]" for g
    using pearsonr_total[OF lens, of g pvalue] that by auto
  from sequence_err_total[of "[0..<length sdge]" ?P, OF this] obtain rps where
    rps: "sequence_err (map ?P [0..<length sdge]) = Inr rps"
    by blast
  have ret: "find_spatial_archetypes ward_fcluster (pearsonr pvalue) num_clusters sdge
               = Inr (?A, clusters, map fst rps)"
    unfolding find_spatial_archetypes_result[where ward_fcluster = ward_fcluster and sdge = sdge
        and k = num_clusters and clusters = clusters, OF cl len ids] rps by simp
  have lr: "length rps = length sdge" using sequence_err_map(1)[OF rps] by simp
  have each: "?P g = Inr (rps ! g)" if "g < length sdge" for g
    using sequence_err_map(2)[OF rps, of g] that by simp
  have A: "length (?A ! i) = ncols sdge \<and>
           (\<forall>j<ncols sdge. ?A ! i ! j =
              np_mean (map (\<lambda>g. sdge ! g ! j)
                         (filter (\<lambda>g. clusters ! g = int i + 1) [0..<length sdge])))"
    if "i < nat num_clusters" for i
  proof -
    have i: "0 \<le> int i" "int i < num_clusters" using that by simp_all
    from archetype_rows_nth[OF i, of sdge clusters] show ?thesis
      by (simp add: mean_axis0_def comp_def)
  qed
  have G: "(map fst rps ! g = NaN \<or>
               (np_le (Fin (- 1)) (map fst rps ! g) \<and> np_le (map fst rps ! g) (Fin 1))) \<and>
              (\<exists>p. ?P g = Inr (map fst rps ! g, p))"
    if "g < length sdge" for g
  proof -
    have e: "?P g = Inr (fst (rps ! g), snd (rps ! g))" using each[OF that] by simp
    have "\<exists>p. ?P g = Inr (fst (rps ! g), p)" using e by (rule exI)
    with pearsonr_range[OF e] show ?thesis using that lr by simp
  qed
  have "length ?A = nat num_clusters" by (simp add: archetype_rows_def)
  with ret A G lr show ?thesis by (intro exI[of _ ?A] exI[of _ "map fst rps"]) simp
qed










lemma np_index_error: "np_index xs i = Inl e \<Longrightarrow> e = IndexError"
  by (simp add: np_index_def split: if_splits)

lemma find_spatial_archetypes_no_clusters:
  assumes k: "num_clusters < 1" and ne: "sdge \<noteq> []"
  shows "find_spatial_archetypes ward_fcluster pearson num_clusters sdge =
           (case ward_fcluster sdge num_clusters of
              Inl e \<Rightarrow> Inl e
            | Inr clusters \<Rightarrow> Inl IndexError)"
proof (cases "ward_fcluster sdge num_clusters")
  case (Inl e)
  then show ?thesis by (simp add: find_spatial_archetypes_def)
next
  case (Inr clusters)
  have empty: "[1..num_clusters] = []" using k by simp
  have upt: "[0..<length sdge] = 0 # [1..<length sdge]"
    using ne by (simp add: upt_rec[of 0])
  have first: "(case np_index clusters (int 0) of
                  Inl e \<Rightarrow> Inl e
                | Inr c \<Rightarrow>
                    (case np_index ([]::matrix) (c - 1) of
                       Inl e \<Rightarrow> Inl e
                     | Inr row \<Rightarrow>
                         (case pearson (sdge ! 0) row of
                            Inl e \<Rightarrow> Inl e
                          | Inr rp \<Rightarrow> Inr (fst rp)))) = Inl IndexError"
    by (cases "np_index clusters (int 0)") (auto simp: np_index_empty dest: np_index_error)
  show ?thesis
    unfolding find_spatial_archetypes_def Inr empty upt
    using first by simp
qed


lemmas find_spatial_archetypes_eval =
  find_spatial_archetypes_def arch_comp_def mean_axis0_def ncols_def np_index_def np_mean_def
  np_sum_def upt_rec[of 0] upt_rec[of 1] upt_rec[of 2] upt_rec[of 3] upto_rec1

subsection \<open>Properties of the clustering routine\<close>


















section \<open>Claims about find_spatial_archetypes\<close>




text \<open>
  C7 (as amended). The function does not check the cluster count. With
  \<open>num_clusters < 1\<close> and at least one gene row it fails, with the error of the clustering
  routine if that fails and otherwise with an \<open>IndexError\<close> (the archetype array is
  empty). With \<open>num_clusters > G\<close> it does not fail: given one label in \<open>[1, G]\<close> for each
  of the \<open>G\<close> rows it returns, with \<open>num_clusters\<close> archetype rows.
\<close>

theorem cluster_count_not_checked:
  "(num_clusters < 1 \<and> sdge \<noteq> [] \<longrightarrow>
      find_spatial_archetypes ward_fcluster pearson num_clusters sdge =
        (case ward_fcluster sdge num_clusters of
           Inl e \<Rightarrow> Inl e
         | Inr clusters \<Rightarrow> Inl IndexError)) \<and>
   (int (length sdge) < num_clusters \<and> ward_fcluster sdge num_clusters = Inr clusters \<and>
    length clusters = length sdge \<and> (\<forall>c \<in> set clusters. 1 \<le> c \<and> c \<le> int (length sdge)) \<and>
    (\<forall>row \<in> set sdge. length row = ncols sdge) \<longrightarrow>
      (\<exists>archetypes gene_corrs.
         find_spatial_archetypes ward_fcluster (pearsonr pvalue) num_clusters sdge
           = Inr (archetypes, clusters, gene_corrs) \<and>
         length archetypes = nat num_clusters))"
proof (intro conjI impI)
  assume "num_clusters < 1 \<and> sdge \<noteq> []"
  then show "find_spatial_archetypes ward_fcluster pearson num_clusters sdge =
        (case ward_fcluster sdge num_clusters of
           Inl e \<Rightarrow> Inl e
         | Inr clusters \<Rightarrow> Inl IndexError)"
    using find_spatial_archetypes_no_clusters by blast
next
  assume a: "int (length sdge) < num_clusters \<and> ward_fcluster sdge num_clusters = Inr clusters \<and>
    length clusters = length sdge \<and> (\<forall>c \<in> set clusters. 1 \<le> c \<and> c \<le> int (length sdge)) \<and>
    (\<forall>row \<in> set sdge. length row = ncols sdge)"
  then have cl: "ward_fcluster sdge num_clusters = Inr clusters"
    and len: "length clusters = length sdge"
    and rect: "\<forall>row \<in> set sdge. length row = ncols sdge"
    by simp_all
  have ids: "\<forall>c \<in> set clusters. 1 \<le> c \<and> c \<le> num_clusters" using a by auto
  from find_spatial_archetypes_pearsonr[where ward_fcluster = ward_fcluster and sdge = sdge
        and num_clusters = num_clusters and clusters = clusters, OF cl len ids rect, of pvalue]
  show "\<exists>archetypes gene_corrs.
         find_spatial_archetypes ward_fcluster (pearsonr pvalue) num_clusters sdge
           = Inr (archetypes, clusters, gene_corrs) \<and>
         length archetypes = nat num_clusters"
    by blast
qed

text \<open>
  C7 as stated fails for \<open>num_clusters = 3\<close> on two genes: the two genes are labelled 1
  and 2 (in either order), and the function returns, the third archetype row being \<open>NaN\<close>.
\<close>

theorem cluster_count_not_checked_counterexample:
  "int (length [[Fin 1, Fin 0, Fin 0], [Fin 1, Fin 1, Fin 0]]) < 3 \<and>
   find_spatial_archetypes (\<lambda>sdge num_clusters. Inr [1, 2]) (pearsonr (\<lambda>r n. Fin (2 / 3))) 3 [[Fin 1, Fin 0, Fin 0], [Fin 1, Fin 1, Fin 0]]
     = Inr ([[Fin 1, Fin 0, Fin 0], [Fin 1, Fin 1, Fin 0], [NaN, NaN, NaN]], [1, 2],
            [Fin 1, Fin 1]) \<and>
   find_spatial_archetypes (\<lambda>sdge num_clusters. Inr [2, 1]) (pearsonr (\<lambda>r n. Fin (2 / 3))) 3 [[Fin 1, Fin 0, Fin 0], [Fin 1, Fin 1, Fin 0]]
     = Inr ([[Fin 1, Fin 1, Fin 0], [Fin 1, Fin 0, Fin 0], [NaN, NaN, NaN]], [2, 1],
            [Fin 1, Fin 1])"
proof -
  have p: "pearsonr (\<lambda>r n. Fin (2 / 3)) [Fin 1, Fin 0, Fin 0] [Fin 1, Fin 0, Fin 0] = Inr (Fin 1, Fin 0)"
    "pearsonr (\<lambda>r n. Fin (2 / 3)) [Fin 1, Fin 1, Fin 0] [Fin 1, Fin 1, Fin 0] = Inr (Fin 1, Fin 0)"
    by (simp_all add: pearsonr_eval sqrt_four_ninths)
  show ?thesis
    by (simp add: find_spatial_archetypes_eval p)
qed

text \<open>The amended C7 at \<open>num_clusters = 0\<close> and at \<open>num_clusters = 3\<close> on two genes.\<close>

theorem cluster_count_not_checked_witness:
  "(0::int) < 1 \<and> [[Fin 1, Fin 0, Fin 0], [Fin 1, Fin 1, Fin 0]] \<noteq> [] \<and>
   find_spatial_archetypes (\<lambda>sdge num_clusters. Inr [1, 1]) (pearsonr (\<lambda>r n. Fin (2 / 3))) 0 [[Fin 1, Fin 0, Fin 0], [Fin 1, Fin 1, Fin 0]]
     = Inl IndexError \<and>
   int (length [[Fin 1, Fin 0, Fin 0], [Fin 1, Fin 1, Fin 0]]) < 3 \<and>
   (\<exists>archetypes gene_corrs.
      find_spatial_archetypes (\<lambda>sdge num_clusters. Inr [1, 2]) (pearsonr (\<lambda>r n. Fin (2 / 3))) 3 [[Fin 1, Fin 0, Fin 0], [Fin 1, Fin 1, Fin 0]]
        = Inr (archetypes, [1, 2], gene_corrs) \<and>
      length archetypes = nat 3)"
proof -
  have a: "find_spatial_archetypes (\<lambda>sdge num_clusters. Inr [1, 1]) (pearsonr (\<lambda>r n. Fin (2 / 3))) 0 [[Fin 1, Fin 0, Fin 0], [Fin 1, Fin 1, Fin 0]]
             = Inl IndexError"
    using cluster_count_not_checked[where num_clusters = 0 and sdge = "[[Fin 1, Fin 0, Fin 0], [Fin 1, Fin 1, Fin 0]]"
        and ward_fcluster = "\<lambda>sdge num_clusters. Inr [1, 1]" and pearson = "pearsonr (\<lambda>r n. Fin (2 / 3))"]
    by simp
  have b: "\<exists>archetypes gene_corrs.
      find_spatial_archetypes (\<lambda>sdge num_clusters. Inr [1, 2]) (pearsonr (\<lambda>r n. Fin (2 / 3))) 3 [[Fin 1, Fin 0, Fin 0], [Fin 1, Fin 1, Fin 0]]
        = Inr (archetypes, [1, 2], gene_corrs) \<and>
      length archetypes = nat 3"
    using cluster_count_not_checked[where num_clusters = 3 and sdge = "[[Fin 1, Fin 0, Fin 0], [Fin 1, Fin 1, Fin 0]]"
        and ward_fcluster = "\<lambda>sdge num_clusters. Inr [1, 2]" and clusters = "[1, 2]"
        and pvalue = "(\<lambda>r n. Fin (2 / 3))"]
    by (simp add: ncols_def)
  from a b show ?thesis by simp
qed




end
